theory Spec2Isabelle
  imports Complex_Main "HOL-Library.Word"
begin

section \<open>Sound detection hook: data model\<close>

text \<open>
  The development follows \<^verbatim>\<open>hooks/useMicrophoneListener.ts\<close>. A \<^verbatim>\<open>Uint8Array\<close> is a list
  of 8-bit words. The sample rate is that of an audio context and so positive, and the
  buffers of an analyser are not empty; under a positive sample rate every bin a
  classifier reads lies inside the spectrum (\<open>reads_in_bounds\<close> below).
\<close>

subsection \<open>Numbers\<close>

text \<open>
  A JavaScript number is an IEEE 754 double: 53 significant bits, exponents from -1022
  to 1023, subnormal numbers below. Every \<^verbatim>\<open>+\<close>, \<^verbatim>\<open>-\<close>, \<^verbatim>\<open>*\<close> and \<^verbatim>\<open>/\<close> returns the double
  nearest to the exact result, the one with the even significand when two are equally
  near, and a decimal literal such as \<^verbatim>\<open>0.3\<close> denotes the double nearest to it. Numbers
  are modelled as the reals they denote, and \<open>double x\<close> is that rounding of the exact
  result \<open>x\<close>: \<open>ulp x\<close> is the spacing of the doubles at \<open>x\<close>, and \<open>round_even\<close> rounds to
  the nearest integer, a half to the even one. Comparisons, \<^verbatim>\<open>Math.min\<close>, \<^verbatim>\<open>Math.max\<close>,
  \<^verbatim>\<open>Math.floor\<close>, \<^verbatim>\<open>Math.ceil\<close> and \<^verbatim>\<open>Math.round\<close> are exact. \<^verbatim>\<open>Math.sqrt\<close> is taken to
  round correctly, as the IEEE 754 square root that the engines use does.

  The rounding is written out at every operation of the source on numbers that need
  not be integers. Bin numbers, counts and clock readings are integers far below
  \<open>2 ^ 53\<close>, where the arithmetic of doubles is exact; they are modelled by \<open>int\<close> and
  \<open>nat\<close>. No operation of the hook overflows: its operands are bytes, bin numbers and
  the sample rate, so the results stay far below the largest double, and Infinity and
  NaN are left out of the model. The sample rate of an audio context is a double of
  some thousand hertz, so halving it is exact and does not give zero.
\<close>

definition round_even :: "real \<Rightarrow> int" where
  "round_even y =
     (let f = \<lfloor>y\<rfloor>
      in if y - of_int f < 1 / 2 \<or> (y - of_int f = 1 / 2 \<and> even f) then f else f + 1)"

definition ulp :: "real \<Rightarrow> real" where
  "ulp x = 2 powr of_int (max \<lfloor>log 2 x\<rfloor> (- 1022) - 52)"

definition double :: "real \<Rightarrow> real" where
  "double x = sgn x * (of_int (round_even (\<bar>x\<bar> / ulp \<bar>x\<bar>)) * ulp \<bar>x\<bar>)"

subsection \<open>Spectra and candidates\<close>

type_synonym byte = "8 word"

datatype SoundType = Fire | Doorbell | Baby

record enabledSounds =
  fire :: bool
  doorbell :: bool
  baby :: bool

text \<open>
  The object a classifier returns. \<^verbatim>\<open>onSoundDetected\<close> receives the same four fields
  together with a \<^verbatim>\<open>new Date()\<close>, a clock reading that is left out of the model.
\<close>

record Candidate =
  type :: SoundType
  confidence :: real
  frequency :: real
  amplitude :: real

definition val :: "byte \<Rightarrow> real" where
  "val b = real (unat b)"

text \<open>\<^verbatim>\<open>Math.round\<close> rounds to the nearest integer, a half upwards.\<close>

definition Math_round :: "real \<Rightarrow> int" where
  "Math_round x = \<lfloor>x + 1 / 2\<rfloor>"

definition getFrequencyBin :: "int \<Rightarrow> real \<Rightarrow> real \<Rightarrow> int" where
  "getFrequencyBin bufferLength nyquist freq =
     Math_round (double (double (freq * real_of_int bufferLength) / nyquist))"

section \<open>Fire alarm classifier\<close>

text \<open>
  The two \<^verbatim>\<open>for\<close> loops of \<^verbatim>\<open>detectFireAlarm\<close>: bins \<open>i..hi\<close>, carrying the running
  peak, the running sum and the count.
\<close>

function fire_loop :: "byte list \<Rightarrow> int \<Rightarrow> int \<Rightarrow> real \<Rightarrow> real \<Rightarrow> nat \<Rightarrow> real \<times> real \<times> nat" where
  "fire_loop frequencyData i hi peak avg cnt =
     (if i \<le> hi
      then fire_loop frequencyData (i + 1) hi
             (max peak (val (frequencyData ! nat i))) (double (avg + val (frequencyData ! nat i)))
             (cnt + 1)
      else (peak, avg, cnt))"
  by pat_completeness auto
termination
  by (relation "measure (\<lambda>(fd, i, hi, p, a, c). nat (hi + 1 - i))") auto

declare fire_loop.simps [simp del]

definition detectFireAlarm :: "enabledSounds \<Rightarrow> byte list \<Rightarrow> real \<Rightarrow> Candidate option" where
  "detectFireAlarm en frequencyData sampleRate =
     (if \<not> fire en then None
      else
        let bufferLength = int (length frequencyData);
            nyquist = double (sampleRate / 2);
            targetFreq = 3100;
            harmonicFreq = 6200;
            targetBin = getFrequencyBin bufferLength nyquist targetFreq;
            harmonicBin = getFrequencyBin bufferLength nyquist harmonicFreq;
            (fundamentalPeak, fundamentalSum, fundamentalCount) =
               fire_loop frequencyData (max 0 (targetBin - 8)) (min (bufferLength - 1) (targetBin + 8)) 0 0 0;
            fundamentalAvg =
               (if fundamentalCount > 0 then double (fundamentalSum / real fundamentalCount) else 0);
            (harmonicPeak, harmonicSum, harmonicCount) =
               fire_loop frequencyData (max 0 (harmonicBin - 6)) (min (bufferLength - 1) (harmonicBin + 6)) 0 0 0;
            harmonicAvg = (if harmonicCount > 0 then double (harmonicSum / real harmonicCount) else 0);
            fundamentalThreshold = 120;
            harmonicThreshold = 60;
            avgThreshold = 40
        in
          if fundamentalPeak > fundamentalThreshold \<and> fundamentalAvg > avgThreshold
             \<and> harmonicPeak > harmonicThreshold
          then
            let fundamentalScore = min (double (fundamentalPeak / 200)) 1;
                harmonicScore = min (double (harmonicPeak / 120)) 1;
                avgScore = min (double (fundamentalAvg / 80)) 1;
                conf = double (double (double (fundamentalScore * 0.5)
                                       + double (harmonicScore * double 0.3))
                               + double (avgScore * double 0.2))
            in Some \<lparr> type = Fire, confidence = min conf (double 0.98),
                        frequency = targetFreq, amplitude = fundamentalPeak \<rparr>
          else None)"

section \<open>Doorbell classifier\<close>

text \<open>
  The range scan that \<^verbatim>\<open>detectDoorbell\<close> runs inside \<^verbatim>\<open>ranges.forEach\<close> and that
  \<^verbatim>\<open>detectBabyCrying\<close> runs inside \<^verbatim>\<open>analyzeRange\<close>; the two loops are the same text.
  It carries the peak, the running sum, the count and the frequency of the peak.
\<close>

function range_loop ::
  "byte list \<Rightarrow> real \<Rightarrow> int \<Rightarrow> int \<Rightarrow> real \<Rightarrow> real \<Rightarrow> nat \<Rightarrow> real \<Rightarrow> real \<times> real \<times> nat \<times> real" where
  "range_loop frequencyData nyquist i maxBin peak avg cnt peakFreq =
     (if i \<le> maxBin \<and> i < int (length frequencyData)
      then
        let a = val (frequencyData ! nat i)
        in range_loop frequencyData nyquist (i + 1) maxBin
             (if a > peak then a else peak) (double (avg + a)) (cnt + 1)
             (if a > peak then double (double (real_of_int i * nyquist) / real (length frequencyData))
              else peakFreq)
      else (peak, avg, cnt, peakFreq))"
  by pat_completeness auto
termination
  by (relation "measure (\<lambda>(fd, ny, i, hi, p, a, c, f). nat (hi + 1 - i))") auto

declare range_loop.simps [simp del]

record freq_range =
  minHz :: real
  maxHz :: real

record weighted_range = freq_range +
  weight :: real

definition ranges :: "weighted_range list" where
  "ranges = [\<lparr> minHz = 350, maxHz = 550, weight = double 0.3 \<rparr>,
             \<lparr> minHz = 700, maxHz = 1000, weight = double 0.4 \<rparr>,
             \<lparr> minHz = 1200, maxHz = 1600, weight = double 0.3 \<rparr>]"

text \<open>The five accumulators of \<^verbatim>\<open>detectDoorbell\<close>.\<close>

record doorbell_acc =
  totalScore :: real
  weightedScore :: real
  activeRanges :: nat
  dominantFreq :: real
  maxAmplitude :: real

definition doorbell_init :: doorbell_acc where
  "doorbell_init = \<lparr> totalScore = 0, weightedScore = 0, activeRanges = 0,
                      dominantFreq = 0, maxAmplitude = 0 \<rparr>"

text \<open>The body of the \<^verbatim>\<open>forEach\<close> callback, for one range.\<close>

definition doorbell_range :: "byte list \<Rightarrow> real \<Rightarrow> doorbell_acc \<Rightarrow> weighted_range \<Rightarrow> doorbell_acc" where
  "doorbell_range frequencyData nyquist acc r =
     (let bufferLength = real (length frequencyData);
          minBin = \<lfloor>double (double (minHz r * bufferLength) / nyquist)\<rfloor>;
          maxBin = \<lceil>double (double (maxHz r * bufferLength) / nyquist)\<rceil>;
          (rangePeak, rangeSum, count, peakFreq) = range_loop frequencyData nyquist minBin maxBin 0 0 0 0
      in
        if count > 0
        then
          let rangeAvg = double (rangeSum / real count)
          in
            if rangePeak > 65 \<and> rangeAvg > 25
            then acc \<lparr> totalScore := double (totalScore acc + double (rangePeak + rangeAvg)),
                       weightedScore :=
                         double (weightedScore acc + double (double (rangePeak + rangeAvg) * weight r)),
                       activeRanges := activeRanges acc + 1,
                       dominantFreq := (if rangePeak > maxAmplitude acc then peakFreq else dominantFreq acc),
                       maxAmplitude := (if rangePeak > maxAmplitude acc then rangePeak else maxAmplitude acc) \<rparr>
            else acc
        else acc)"

definition doorbell_scan :: "byte list \<Rightarrow> real \<Rightarrow> doorbell_acc" where
  "doorbell_scan frequencyData sampleRate =
     foldl (doorbell_range frequencyData (double (sampleRate / 2))) doorbell_init ranges"

definition detectDoorbell :: "enabledSounds \<Rightarrow> byte list \<Rightarrow> real \<Rightarrow> Candidate option" where
  "detectDoorbell en frequencyData sampleRate =
     (if \<not> doorbell en then None
      else
        let acc = doorbell_scan frequencyData sampleRate
        in
          if activeRanges acc \<ge> 2 \<and> weightedScore acc > 180
          then Some \<lparr> type = Doorbell, confidence = min (double (weightedScore acc / 350)) (double 0.95),
                      frequency = dominantFreq acc, amplitude = maxAmplitude acc \<rparr>
          else None)"

section \<open>Baby crying classifier\<close>

record range_result =
  peak :: real
  avg :: real
  peakFrequency :: real

definition analyzeRange :: "byte list \<Rightarrow> real \<Rightarrow> freq_range \<Rightarrow> range_result" where
  "analyzeRange frequencyData nyquist r =
     (let bufferLength = real (length frequencyData);
          minBin = \<lfloor>double (double (minHz r * bufferLength) / nyquist)\<rfloor>;
          maxBin = \<lceil>double (double (maxHz r * bufferLength) / nyquist)\<rceil>;
          (pk, total, count, peakFreq) = range_loop frequencyData nyquist minBin maxBin 0 0 0 0
      in \<lparr> peak = pk, avg = (if count > 0 then double (total / real count) else 0),
           peakFrequency = peakFreq \<rparr>)"

definition detectBabyCrying :: "enabledSounds \<Rightarrow> byte list \<Rightarrow> real \<Rightarrow> Candidate option" where
  "detectBabyCrying en frequencyData sampleRate =
     (if \<not> baby en then None
      else
        let nyquist = double (sampleRate / 2);
            fundamental = analyzeRange frequencyData nyquist \<lparr> minHz = 250, maxHz = 600 \<rparr>;
            harmonic1 = analyzeRange frequencyData nyquist \<lparr> minHz = 800, maxHz = 1400 \<rparr>;
            harmonic2 = analyzeRange frequencyData nyquist \<lparr> minHz = 1600, maxHz = 2800 \<rparr>;
            harmonic3 = analyzeRange frequencyData nyquist \<lparr> minHz = 3000, maxHz = 4500 \<rparr>;
            fundamentalThreshold = 80;
            harmonicThreshold = 45;
            avgThreshold = 35
        in
          if peak fundamental > fundamentalThreshold \<and> avg fundamental > avgThreshold
             \<and> (peak harmonic1 > harmonicThreshold \<or> peak harmonic2 > harmonicThreshold
                  \<or> peak harmonic3 > double (harmonicThreshold * double 0.8))
          then
            let fundamentalScore = min (double (peak fundamental / 150)) 1;
                harmonicScore =
                  min (double (double (double (peak harmonic1 + peak harmonic2) + peak harmonic3) / 200)) 1;
                avgScore = min (double (avg fundamental / 70)) 1;
                conf = double (double (double (fundamentalScore * double 0.4)
                                       + double (harmonicScore * double 0.4))
                               + double (avgScore * double 0.2))
            in Some \<lparr> type = Baby, confidence = min conf (double 0.92),
                        frequency = peakFrequency fundamental, amplitude = peak fundamental \<rparr>
          else None)"

section \<open>The hook's state\<close>

datatype AudioContextState = Suspended | Running | Closed

record AudioContext =
  sampleRate :: real
  state :: AudioContextState

record AnalyserNode =
  fftSize :: nat

definition frequencyBinCount :: "AnalyserNode \<Rightarrow> nat" where
  "frequencyBinCount a = fftSize a div 2"

text \<open>
  The messages passed to \<^verbatim>\<open>setError\<close>, by the branch that sets them (the texts
  themselves are user-interface strings).
\<close>

datatype ErrorMessage =
  WebOnly | AccessDenied | NoMicrophone | BrowserUnsupported | AccessFailed | AudioInitFailed

text \<open>
  The React state (\<^verbatim>\<open>useState\<close>) and the references (\<^verbatim>\<open>useRef\<close>) of the hook.
  \<^verbatim>\<open>animationFrameRef\<close> records whether a handle of a requested frame is held, and
  \<^verbatim>\<open>mediaStreamRef\<close> whether a stream is held.
\<close>

record hook =
  hasPermission :: bool
  error :: "ErrorMessage option"
  audioLevel :: real
  isInitializing :: bool
  audioContextRef :: "AudioContext option"
  analyserRef :: "AnalyserNode option"
  mediaStreamRef :: bool
  animationFrameRef :: bool
  lastDetectionRef :: "SoundType \<rightharpoonup> int"
  smoothedLevelRef :: real
  frequencyHistoryRef :: "byte list list"

definition initial_hook :: hook where
  "initial_hook = \<lparr> hasPermission = False, error = None, audioLevel = 0, isInitializing = False,
       audioContextRef = None, analyserRef = None, mediaStreamRef = False,
       animationFrameRef = False, lastDetectionRef = Map.empty, smoothedLevelRef = 0,
       frequencyHistoryRef = [] \<rparr>"

text \<open>
  The hook's properties, as the callbacks created in one render hold them: a callback
  keeps the \<^verbatim>\<open>isListening\<close> and \<^verbatim>\<open>enabledSounds\<close> it was created with.
  \<^verbatim>\<open>onSoundDetected\<close> is modelled by the list of detections a cycle returns.
\<close>

record props =
  isListening :: bool
  enabledSounds :: enabledSounds

text \<open>
  What one analysis cycle reads from its environment: the two buffers as the analyser
  fills them, and \<^verbatim>\<open>Date.now()\<close> in milliseconds.
\<close>

record cycle_input =
  frequencyData :: "byte list"
  timeData :: "byte list"
  now :: int

section \<open>One analysis cycle\<close>

text \<open>The loop over \<^verbatim>\<open>timeData\<close>: one sample, and the sum of the squares.\<close>

definition sample :: "byte \<Rightarrow> real" where
  "sample b = double (double (val b - 128) / 128)"

definition sum_squares :: "byte list \<Rightarrow> real" where
  "sum_squares td = foldl (\<lambda>sum b. double (sum + double (sample b * sample b))) 0 td"

definition rms :: "byte list \<Rightarrow> real" where
  "rms td = double (sqrt (double (sum_squares td / real (length td))))"

definition targetLevel :: "byte list \<Rightarrow> real" where
  "targetLevel td = min (double (rms td * 5)) 1"

text \<open>The statement \<^verbatim>\<open>smoothedLevelRef.current += (targetLevel - smoothedLevelRef.current) * 0.25\<close>.\<close>

definition smooth :: "real \<Rightarrow> real \<Rightarrow> real" where
  "smooth target level = double (level + double (double (target - level) * 0.25))"

definition push_history :: "byte list list \<Rightarrow> byte list \<Rightarrow> byte list list" where
  "push_history h fd = (let h' = h @ [fd] in if length h' > 10 then tl h' else h')"

definition cooldownPeriod :: "SoundType \<Rightarrow> int" where
  "cooldownPeriod t = (if t = Fire then 3000 else 8000)"

definition confidenceThreshold :: "SoundType \<Rightarrow> real" where
  "confidenceThreshold t = (if t = Fire then 0.75 else 0.7)"

text \<open>\<^verbatim>\<open>lastDetectionRef.current[detection.type] || 0\<close>\<close>

definition lastDetection :: "(SoundType \<rightharpoonup> int) \<Rightarrow> SoundType \<Rightarrow> int" where
  "lastDetection m t = (case m t of None \<Rightarrow> 0 | Some v \<Rightarrow> v)"

text \<open>
  The body of \<^verbatim>\<open>detections.forEach\<close>: the gate state and the detections handed to
  \<^verbatim>\<open>onSoundDetected\<close> so far, and one detection. The threshold \<^verbatim>\<open>0.7\<close> of the source is
  the double next below \<open>7 / 10\<close>; a confidence is a double, and a double exceeds the
  one exactly when it exceeds the other (\<open>threshold_double\<close> below).
\<close>

definition process_detection ::
  "int \<Rightarrow> (SoundType \<rightharpoonup> int) \<times> Candidate list \<Rightarrow> Candidate \<Rightarrow> (SoundType \<rightharpoonup> int) \<times> Candidate list" where
  "process_detection t acc d =
     (case acc of (m, out) \<Rightarrow>
        if t - lastDetection m (type d) > cooldownPeriod (type d)
           \<and> confidence d > confidenceThreshold (type d)
        then (m(type d \<mapsto> t), out @ [d])
        else (m, out))"

text \<open>The three classifier calls followed by \<^verbatim>\<open>.filter(Boolean)\<close>.\<close>

definition detections :: "enabledSounds \<Rightarrow> byte list \<Rightarrow> real \<Rightarrow> Candidate list" where
  "detections en fd sr =
     List.map_filter (\<lambda>x. x) [detectFireAlarm en fd sr, detectDoorbell en fd sr, detectBabyCrying en fd sr]"

text \<open>
  \<^verbatim>\<open>analyzeAudio\<close>: the new state and the detections handed to \<^verbatim>\<open>onSoundDetected\<close>, in
  order. The first branch is the early \<^verbatim>\<open>return\<close>, which schedules no further frame.
\<close>

definition analyzeAudio :: "props \<Rightarrow> cycle_input \<Rightarrow> hook \<Rightarrow> hook \<times> Candidate list" where
  "analyzeAudio p inp h =
     (case (analyserRef h, audioContextRef h) of
        (Some analyser, Some ctx) \<Rightarrow>
          let level = smooth (targetLevel (timeData inp)) (smoothedLevelRef h);
              history = push_history (frequencyHistoryRef h) (frequencyData inp);
              (m, out) = foldl (process_detection (now inp)) (lastDetectionRef h, [])
                           (detections (enabledSounds p) (frequencyData inp) (sampleRate ctx))
          in (h \<lparr> smoothedLevelRef := level, audioLevel := level, frequencyHistoryRef := history,
                   lastDetectionRef := m,
                   animationFrameRef := (if isListening p then True else animationFrameRef h) \<rparr>, out)
      | _ \<Rightarrow> (h, []))"

section \<open>Starting and stopping a session\<close>

text \<open>
  What starting a session reads from its environment: the platform, the outcome of
  \<^verbatim>\<open>getUserMedia\<close> (the message of the error it rejects with, if it does), the audio
  context that \<^verbatim>\<open>initializeAudioContext\<close> constructs (none if constructing it or its
  analyser throws), and the input of the first cycle.
\<close>

record start_input =
  platformWeb :: bool
  getUserMedia :: "string option"
  newAudio :: "AudioContext option"
  firstCycle :: cycle_input

text \<open>\<^verbatim>\<open>String.prototype.includes\<close>\<close>

definition str_includes :: "string \<Rightarrow> string \<Rightarrow> bool" where
  "str_includes s t = list_ex (\<lambda>i. take (length t) (drop i s) = t) [0..<Suc (length s)]"

definition requestPermission :: "start_input \<Rightarrow> hook \<Rightarrow> bool \<times> hook" where
  "requestPermission env h =
     (if \<not> platformWeb env then (False, h \<lparr> error := Some WebOnly \<rparr>)
      else case getUserMedia env of
        None \<Rightarrow> (True, h \<lparr> mediaStreamRef := True, hasPermission := True, error := None,
                             isInitializing := False \<rparr>)
      | Some errorMessage \<Rightarrow>
          (False, h \<lparr> error := Some
                     (if str_includes errorMessage ''Permission denied'' \<or> str_includes errorMessage ''NotAllowedError''
                      then AccessDenied
                      else if str_includes errorMessage ''NotFound'' \<or> str_includes errorMessage ''NotFoundError''
                      then NoMicrophone
                      else if str_includes errorMessage ''NotSupported'' \<or> str_includes errorMessage ''NotSupportedError''
                      then BrowserUnsupported
                      else AccessFailed),
                   hasPermission := False, isInitializing := False \<rparr>))"

definition initializeAudioContext :: "start_input \<Rightarrow> hook \<Rightarrow> bool \<times> hook" where
  "initializeAudioContext env h =
     (if \<not> mediaStreamRef h then (False, h)
      else case newAudio env of
        Some ctx \<Rightarrow>
          (True, h \<lparr> audioContextRef := Some ctx, analyserRef := Some \<lparr> fftSize = 16384 \<rparr> \<rparr>)
      | None \<Rightarrow> (False, h \<lparr> error := Some AudioInitFailed \<rparr>))"

text \<open>\<^verbatim>\<open>audioContextRef.current.resume()\<close> when the context is suspended.\<close>

definition resume :: "hook \<Rightarrow> hook" where
  "resume h =
     (case audioContextRef h of
        Some ctx \<Rightarrow> if state ctx = Suspended then h \<lparr> audioContextRef := Some (ctx \<lparr> state := Running \<rparr>) \<rparr> else h
      | None \<Rightarrow> h)"

text \<open>
  \<^verbatim>\<open>startListening\<close>, with \<^verbatim>\<open>hasPermission\<close> as the call sees it. It returns its result,
  the new state and the detections of the cycle it runs.
\<close>

definition startListening :: "props \<Rightarrow> start_input \<Rightarrow> hook \<Rightarrow> bool \<times> hook \<times> Candidate list" where
  "startListening p env h =
     (case (if \<not> hasPermission h then requestPermission env h else (True, h)) of
        (granted, h1) \<Rightarrow>
          if \<not> granted then (False, h1, [])
          else case initializeAudioContext env h1 of
            (ok, h2) \<Rightarrow>
              if \<not> ok then (False, h2, [])
              else
                let h3 = resume h2;
                    h4 = h3 \<lparr> lastDetectionRef := Map.empty, frequencyHistoryRef := [] \<rparr>;
                    (h5, out) = analyzeAudio p (firstCycle env) h4
                in (True, h5, out))"

definition stopListening :: "hook \<Rightarrow> hook" where
  "stopListening h =
     (let h1 = h \<lparr> animationFrameRef := False \<rparr>;
          h2 = (case audioContextRef h1 of
                  Some ctx \<Rightarrow> if state ctx \<noteq> Closed then h1 \<lparr> audioContextRef := None \<rparr> else h1
                | None \<Rightarrow> h1)
      in h2 \<lparr> mediaStreamRef := False, analyserRef := None, smoothedLevelRef := 0,
               audioLevel := 0, hasPermission := False \<rparr>)"

text \<open>
  The frame loop: \<^verbatim>\<open>analyzeAudio\<close> requests the next frame for itself, the same
  callback with the properties it holds, when it got past its early return and
  \<^verbatim>\<open>isListening\<close> holds; the inputs of the cycles are given as a list.
\<close>

fun frame_loop :: "props \<Rightarrow> cycle_input list \<Rightarrow> hook \<Rightarrow> hook \<times> Candidate list" where
  "frame_loop p [] h = (h, [])"
| "frame_loop p (inp # rest) h =
     (let (h1, out) = analyzeAudio p inp h
      in if analyserRef h \<noteq> None \<and> audioContextRef h \<noteq> None \<and> isListening p
         then (let (h2, out2) = frame_loop p rest h1 in (h2, out @ out2))
         else (h1, out))"

declare frame_loop.simps [simp del]

section \<open>Notions used to state the properties\<close>

text \<open>The magnitudes of the bins \<open>lo..hi\<close>, their largest value and their mean.\<close>

definition band_values :: "byte list \<Rightarrow> int \<Rightarrow> int \<Rightarrow> real list" where
  "band_values fd lo hi = map (\<lambda>i. val (fd ! nat i)) [lo..hi]"

definition band_peak :: "real list \<Rightarrow> real" where
  "band_peak vs = Max (insert 0 (set vs))"

text \<open>
  The sum as a loop forms it, one rounded addition per value, from the start value \<open>a\<close>,
  and the mean formed from it. The values are bytes, so for a spectrum of fewer than
  \<open>2 ^ 44\<close> bins no addition rounds and the mean is the double nearest to the exact
  mean (\<open>band_mean_exact\<close> below).
\<close>

definition running_sum :: "real \<Rightarrow> real list \<Rightarrow> real" where
  "running_sum a vs = foldl (\<lambda>s v. double (s + v)) a vs"

definition band_mean :: "real list \<Rightarrow> real" where
  "band_mean vs = (if vs = [] then 0 else double (running_sum 0 vs / real (length vs)))"

text \<open>The frequency the range scans give to bin \<open>k\<close>.\<close>

definition bin_frequency :: "byte list \<Rightarrow> real \<Rightarrow> int \<Rightarrow> real" where
  "bin_frequency fd ny k = double (double (real_of_int k * ny) / real (length fd))"

text \<open>The first bin of \<open>lo..hi\<close> whose magnitude is \<open>v\<close>.\<close>

definition first_bin :: "byte list \<Rightarrow> int \<Rightarrow> int \<Rightarrow> real \<Rightarrow> int option" where
  "first_bin fd lo hi v = find (\<lambda>k. val (fd ! nat k) = v) [lo..hi]"

text \<open>
  What a range scan over the bins \<open>i..hi\<close> returns when it starts from peak \<open>p\<close>, sum
  \<open>a\<close>, count \<open>c\<close> and peak frequency \<open>f\<close>.
\<close>

definition scanned ::
  "byte list \<Rightarrow> real \<Rightarrow> int \<Rightarrow> int \<Rightarrow> real \<Rightarrow> real \<Rightarrow> nat \<Rightarrow> real \<Rightarrow> real \<times> real \<times> nat \<times> real" where
  "scanned fd ny i hi p a c f =
     (let vs = band_values fd i hi; m = Max (insert p (set vs))
      in (m, running_sum a vs, c + length vs,
          if m > p
          then (case first_bin fd i hi m of Some k \<Rightarrow> bin_frequency fd ny k | None \<Rightarrow> f)
          else f))"

text \<open>
  The two bin windows of the fire alarm classifier: 8 bins either side of the bin of
  3100 Hz and 6 bins either side of the bin of 6200 Hz, cut to the spectrum.
\<close>

definition fire_fundamental :: "byte list \<Rightarrow> real \<Rightarrow> real list" where
  "fire_fundamental fd sr =
     (let n = int (length fd); b = getFrequencyBin n (double (sr / 2)) 3100
      in band_values fd (max 0 (b - 8)) (min (n - 1) (b + 8)))"

definition fire_harmonic :: "byte list \<Rightarrow> real \<Rightarrow> real list" where
  "fire_harmonic fd sr =
     (let n = int (length fd); b = getFrequencyBin n (double (sr / 2)) 6200
      in band_values fd (max 0 (b - 6)) (min (n - 1) (b + 6)))"

definition fire_confidence :: "real \<Rightarrow> real \<Rightarrow> real \<Rightarrow> real" where
  "fire_confidence fundamentalPeak harmonicPeak fundamentalAvg =
     min (double (double (double (min (double (fundamentalPeak / 200)) 1 * 0.5)
                          + double (min (double (harmonicPeak / 120)) 1 * double 0.3))
                  + double (min (double (fundamentalAvg / 80)) 1 * double 0.2)))
         (double 0.98)"

text \<open>
  The band of the specification, in its own words: the bins from the bin of
  \<open>centre - tol\<close> to the bin of \<open>centre + tol\<close>, with the specification's conversion
  \<open>bin = round (freq * bins * 2 / sampleRate)\<close>, and its activation rule for Fire, over
  the exact mean of the band.
\<close>

definition spec_bin :: "nat \<Rightarrow> real \<Rightarrow> real \<Rightarrow> int" where
  "spec_bin bins sr freq = Math_round (freq * real bins * 2 / sr)"

definition spec_band :: "byte list \<Rightarrow> real \<Rightarrow> real \<Rightarrow> real \<Rightarrow> real list" where
  "spec_band fd sr centre tol =
     band_values fd (max 0 (spec_bin (length fd) sr (centre - tol)))
                    (min (int (length fd) - 1) (spec_bin (length fd) sr (centre + tol)))"

definition spec_fire_rule :: "byte list \<Rightarrow> real \<Rightarrow> bool" where
  "spec_fire_rule fd sr =
     (band_peak (spec_band fd sr 3100 150) > 120
      \<and> sum_list (spec_band fd sr 3100 150) / real (length (spec_band fd sr 3100 150)) > 40
      \<and> band_peak (spec_band fd sr 6200 115) > 60)"

text \<open>
  A frequency range \<open>minHz..maxHz\<close> as the doorbell and baby classifiers scan it: from
  the bin below \<open>minHz\<close> to the bin above \<open>maxHz\<close>, cut to the spectrum.
\<close>

definition range_lo :: "byte list \<Rightarrow> real \<Rightarrow> 'a freq_range_scheme \<Rightarrow> int" where
  "range_lo fd sr r = \<lfloor>double (double (minHz r * real (length fd)) / double (sr / 2))\<rfloor>"

definition range_hi :: "byte list \<Rightarrow> real \<Rightarrow> 'a freq_range_scheme \<Rightarrow> int" where
  "range_hi fd sr r =
     min \<lceil>double (double (maxHz r * real (length fd)) / double (sr / 2))\<rceil> (int (length fd) - 1)"

definition range_values :: "byte list \<Rightarrow> real \<Rightarrow> 'a freq_range_scheme \<Rightarrow> real list" where
  "range_values fd sr r = band_values fd (range_lo fd sr r) (range_hi fd sr r)"

definition range_peak :: "byte list \<Rightarrow> real \<Rightarrow> 'a freq_range_scheme \<Rightarrow> real" where
  "range_peak fd sr r = band_peak (range_values fd sr r)"

definition range_mean :: "byte list \<Rightarrow> real \<Rightarrow> 'a freq_range_scheme \<Rightarrow> real" where
  "range_mean fd sr r = band_mean (range_values fd sr r)"

text \<open>The frequency of the first bin of the range that holds the range's peak.\<close>

definition range_peak_freq :: "byte list \<Rightarrow> real \<Rightarrow> 'a freq_range_scheme \<Rightarrow> real" where
  "range_peak_freq fd sr r =
     (case first_bin fd (range_lo fd sr r) (range_hi fd sr r) (range_peak fd sr r) of
        Some k \<Rightarrow> bin_frequency fd (double (sr / 2)) k | None \<Rightarrow> 0)"

definition active :: "byte list \<Rightarrow> real \<Rightarrow> 'a freq_range_scheme \<Rightarrow> bool" where
  "active fd sr r = (range_peak fd sr r > 65 \<and> range_mean fd sr r > 25)"

definition active_ranges :: "byte list \<Rightarrow> real \<Rightarrow> weighted_range list" where
  "active_ranges fd sr = filter (active fd sr) ranges"

text \<open>
  The weighted score: the terms \<open>(peak + mean) * weight\<close> of the active ranges, added up
  in the order of the ranges.
\<close>

definition doorbell_score :: "byte list \<Rightarrow> real \<Rightarrow> real" where
  "doorbell_score fd sr =
     foldl (\<lambda>s r. double (s + double (double (range_peak fd sr r + range_mean fd sr r) * weight r)))
       0 (active_ranges fd sr)"

text \<open>
  The active doorbell range that holds the largest peak, the first one if several do,
  and the frequency and amplitude it stands for.
\<close>

definition dominant_range :: "byte list \<Rightarrow> real \<Rightarrow> weighted_range option" where
  "dominant_range fd sr =
     find (\<lambda>r. range_peak fd sr r = band_peak (map (range_peak fd sr) (active_ranges fd sr)))
       (active_ranges fd sr)"

definition doorbell_frequency :: "byte list \<Rightarrow> real \<Rightarrow> real" where
  "doorbell_frequency fd sr =
     (case dominant_range fd sr of Some r \<Rightarrow> range_peak_freq fd sr r | None \<Rightarrow> 0)"

definition baby_confidence :: "real \<Rightarrow> real \<Rightarrow> real \<Rightarrow> real" where
  "baby_confidence fundamentalPeak harmonicPeaks fundamentalAvg =
     min (double (double (double (min (double (fundamentalPeak / 150)) 1 * double 0.4)
                          + double (min (double (harmonicPeaks / 200)) 1 * double 0.4))
                  + double (min (double (fundamentalAvg / 70)) 1 * double 0.2)))
         (double 0.92)"

definition all_enabled :: enabledSounds where
  "all_enabled = \<lparr> fire = True, doorbell = True, baby = True \<rparr>"

text \<open>
  The confidence ceiling the specification gives each kind, as the number that
  \<^verbatim>\<open>0.98\<close>, \<^verbatim>\<open>0.95\<close> and \<^verbatim>\<open>0.92\<close> denote.
\<close>

definition maxConfidence :: "SoundType \<Rightarrow> real" where
  "maxConfidence t = (case t of Fire \<Rightarrow> double 0.98 | Doorbell \<Rightarrow> double 0.95 | Baby \<Rightarrow> double 0.92)"

text \<open>Whether a detection clears the two tests of the event gate in gate state \<open>m\<close> at time \<open>t\<close>.\<close>

definition passes :: "(SoundType \<rightharpoonup> int) \<Rightarrow> int \<Rightarrow> Candidate \<Rightarrow> bool" where
  "passes m t d =
     (confidence d > confidenceThreshold (type d) \<and> t - lastDetection m (type d) > cooldownPeriod (type d))"

text \<open>
  Cycle inputs whose time-domain buffers are not empty and all give the target level \<open>t\<close>.
\<close>

definition steady :: "real \<Rightarrow> cycle_input list \<Rightarrow> bool" where
  "steady t inps = (\<forall>i \<in> set inps. timeData i \<noteq> [] \<and> targetLevel (timeData i) = t)"

text \<open>
  Concrete inputs: a saturated spectrum of 8192 bins at the hook's transform size, a
  time-domain buffer at full swing, and a hook that holds a running 48 kHz context and
  its analyser.
\<close>

definition saturated :: "byte list" where
  "saturated = replicate 8192 255"

definition loud :: "byte list" where
  "loud = replicate 8192 0"

definition listening_hook :: hook where
  "listening_hook = initial_hook \<lparr> hasPermission := True,
       audioContextRef := Some \<lparr> sampleRate = 48000, state = Running \<rparr>,
       analyserRef := Some \<lparr> fftSize = 16384 \<rparr>, mediaStreamRef := True \<rparr>"

definition listening_props :: props where
  "listening_props = \<lparr> isListening = True, enabledSounds = all_enabled \<rparr>"

definition saturated_input :: "int \<Rightarrow> cycle_input" where
  "saturated_input t = \<lparr> frequencyData = saturated, timeData = loud, now = t \<rparr>"

text \<open>
  Two spectra of 8192 bins. In \<open>low_tone\<close> the bins 1007 to 1049 (2950 Hz to 3074 Hz at
  48 kHz) and the bin 2116 (6199 Hz) are saturated and all others are silent. In
  \<open>strong_harmonic\<close> the bins below 2000 hold 130 and the bins from 2000 on are saturated.
\<close>

definition low_tone :: "byte list" where
  "low_tone = replicate 1007 0 @ replicate 43 255 @ replicate 1066 0 @ [255] @ replicate 6075 0"

definition strong_harmonic :: "byte list" where
  "strong_harmonic = replicate 2000 130 @ replicate 6192 255"

text \<open>
  The cycle under the target 1 on the doubles \<open>M / 2 ^ 53\<close> between a half and one: it
  takes \<open>M\<close> to the integer nearest to \<open>(3 * M + 2 ^ 53) / 4\<close> (\<open>smooth_grid\<close> below).
\<close>

definition grid_step :: "int \<Rightarrow> int" where
  "grid_step M = round_even ((3 * real_of_int M + 2 ^ 53) / 4)"

text \<open>
  Two runs of cycles, 16 ms apart: \<open>loud_frames n\<close> is \<open>n\<close> cycles whose time-domain buffer is
  at full swing, \<open>hum_frames n\<close> is \<open>n\<close> cycles whose time-domain buffer holds the byte 141
  throughout, 13 steps above the centre 128. Both see a silent spectrum.
\<close>

definition hum :: "byte list" where
  "hum = replicate 8192 141"

definition loud_frames :: "nat \<Rightarrow> cycle_input list" where
  "loud_frames n =
     map (\<lambda>k. \<lparr> frequencyData = replicate 8192 0, timeData = loud, now = 1700000000000 + 16 * int k \<rparr>)
       [0..<n]"

definition hum_frames :: "nat \<Rightarrow> cycle_input list" where
  "hum_frames n =
     map (\<lambda>k. \<lparr> frequencyData = replicate 8192 0, timeData = hum, now = 1700000000000 + 16 * int k \<rparr>)
       [0..<n]"

text \<open>
  Spectra of 8192 bins that are silent but for the three doorbell ranges as they lie
  at 48 kHz: \<open>tones a b c\<close> holds \<open>a\<close> in the bins 119 to 188, \<open>b\<close> in the bins 238 to 342
  and \<open>c\<close> in the bins 409 to 547. For \<open>chime\<close> the terms \<open>(peak + mean) * weight\<close> add
  up to 180 in exact arithmetic, for \<open>two_tone\<close> to 245.
\<close>

definition tones :: "byte \<Rightarrow> byte \<Rightarrow> byte \<Rightarrow> byte list" where
  "tones a b c = replicate 119 0 @ replicate 70 a @ replicate 49 0 @ replicate 105 b
                 @ replicate 66 0 @ replicate 139 c @ replicate 7644 0"

definition chime :: "byte list" where
  "chime = tones 68 111 84"

definition two_tone :: "byte list" where
  "two_tone = tones 79 247 0"

text \<open>
  An environment in which a start succeeds: the web platform, a granted microphone,
  a suspended 48 kHz context, and a first cycle that sees the
  saturated spectrum one millisecond after 1700000000000.
\<close>

definition restart_env :: start_input where
  "restart_env = \<lparr> platformWeb = True, getUserMedia = None,
       newAudio = Some \<lparr> sampleRate = 48000, state = Suspended \<rparr>,
       firstCycle = saturated_input 1700000000001 \<rparr>"

text \<open>
  The frame loop of the specification, in its own words: the mask is read fresh each
  cycle, so every cycle comes with the mask the consumer holds at that time.
\<close>

fun spec_frame_loop :: "(enabledSounds \<times> cycle_input) list \<Rightarrow> hook \<Rightarrow> hook \<times> Candidate list" where
  "spec_frame_loop [] h = (h, [])"
| "spec_frame_loop ((en, inp) # rest) h =
     (let (h1, out) = analyzeAudio \<lparr> isListening = True, enabledSounds = en \<rparr> inp h;
          (h2, out2) = spec_frame_loop rest h1
      in (h2, out @ out2))"

definition enabled_kind :: "enabledSounds \<Rightarrow> SoundType \<Rightarrow> bool" where
  "enabled_kind en t = (case t of Fire \<Rightarrow> fire en | Doorbell \<Rightarrow> doorbell en | Baby \<Rightarrow> baby en)"

definition fire_off :: enabledSounds where
  "fire_off = \<lparr> fire = False, doorbell = True, baby = True \<rparr>"


section \<open>Double-precision arithmetic\<close>

text \<open>
  Rounding to the nearest integer is monotone and fixes the integers; rounding to the
  nearest double is monotone, fixes the doubles and is computed by scaling a number
  into the interval from \<open>2 ^ 52\<close> to \<open>2 ^ 53\<close>.
\<close>

lemma round_even_mono: "x \<le> y \<Longrightarrow> round_even x \<le> round_even y"
proof -
  assume le: "x \<le> y"
  have fl: "\<lfloor>x\<rfloor> \<le> \<lfloor>y\<rfloor>" using le by (rule floor_mono)
  show ?thesis
  proof (cases "\<lfloor>x\<rfloor> = \<lfloor>y\<rfloor>")
    case True
    then show ?thesis using le by (auto simp: round_even_def Let_def)
  next
    case False
    with fl have "\<lfloor>x\<rfloor> + 1 \<le> \<lfloor>y\<rfloor>" by simp
    moreover have "round_even x \<le> \<lfloor>x\<rfloor> + 1" by (simp add: round_even_def Let_def)
    moreover have "\<lfloor>y\<rfloor> \<le> round_even y" by (simp add: round_even_def Let_def)
    ultimately show ?thesis by linarith
  qed
qed

lemma round_even_int [simp]: "round_even (of_int k) = k"
  by (simp add: round_even_def)

lemma round_even_upper: "of_int (round_even y) \<le> y + 1 / 2"
  unfolding round_even_def Let_def by (auto; linarith)

lemma round_even_lower: "y - 1 / 2 \<le> of_int (round_even y)"
  unfolding round_even_def Let_def by (auto; linarith)

lemma round_even_nonneg: "0 \<le> y \<Longrightarrow> 0 \<le> round_even y"
  using round_even_mono [of 0 y] round_even_int [of 0] by simp

lemma round_even_twice: "0 \<le> y \<Longrightarrow> real_of_int (round_even y) \<le> 2 * y"
proof (cases "y < 1 / 2")
  case True
  assume "0 \<le> y"
  then have "\<lfloor>y\<rfloor> = 0" using True by (simp add: floor_eq_iff)
  then have "round_even y = 0" using True by (simp add: round_even_def)
  then show ?thesis using \<open>0 \<le> y\<close> by simp
next
  case False
  then show ?thesis using round_even_upper [of y] by linarith
qed

lemma ulp_pos: "0 < ulp x"
  by (simp add: ulp_def)

lemma double_zero [simp]: "double 0 = 0"
  by (simp add: double_def)

lemma double_pos_eq: "0 < x \<Longrightarrow> double x = of_int (round_even (x / ulp x)) * ulp x"
  by (simp add: double_def)

lemma double_neg_eq: "x < 0 \<Longrightarrow> double x = - double (- x)"
  by (simp add: double_def)

lemma double_minus: "double (- x) = - double x"
  by (simp add: double_def sgn_minus)

lemma double_nonneg: "0 \<le> x \<Longrightarrow> 0 \<le> double x"
  using ulp_pos [of "\<bar>x\<bar>"] round_even_nonneg [of "\<bar>x\<bar> / ulp \<bar>x\<bar>"]
  by (simp add: double_def sgn_real_def)

lemma double_twice: "0 \<le> x \<Longrightarrow> double x \<le> 2 * x"
proof (cases "x = 0")
  case False
  assume "0 \<le> x"
  with False have pos: "0 < x" by simp
  have "real_of_int (round_even (x / ulp x)) \<le> 2 * (x / ulp x)"
    using pos ulp_pos [of x] by (intro round_even_twice) simp
  then have "real_of_int (round_even (x / ulp x)) * ulp x \<le> 2 * (x / ulp x) * ulp x"
    using ulp_pos [of x] by (intro mult_right_mono) simp_all
  then show ?thesis using ulp_pos [of x] by (simp add: double_pos_eq [OF pos])
qed simp

lemma binade:
  assumes "0 < x"
  shows "2 powr of_int \<lfloor>log 2 x\<rfloor> \<le> x" and "x < 2 powr of_int (\<lfloor>log 2 x\<rfloor> + 1)"
proof -
  have "of_int \<lfloor>log 2 x\<rfloor> \<le> log 2 x" by simp
  then show "2 powr of_int \<lfloor>log 2 x\<rfloor> \<le> x"
    using assms le_log_iff [of 2 x "of_int \<lfloor>log 2 x\<rfloor>"] by linarith
  have "log 2 x < of_int (\<lfloor>log 2 x\<rfloor> + 1)" by linarith
  then show "x < 2 powr of_int (\<lfloor>log 2 x\<rfloor> + 1)"
    using assms log_less_iff [of 2 x "of_int (\<lfloor>log 2 x\<rfloor> + 1)"] by linarith
qed

lemma floor_log_eq:
  assumes "2 powr of_int e \<le> x" and "x < 2 powr of_int (e + 1)"
  shows "\<lfloor>log 2 x\<rfloor> = e"
proof -
  have pos: "0 < x" using assms(1) by (smt (verit) powr_gt_zero)
  have "of_int e \<le> log 2 x"
    using assms(1) pos le_log_iff [of 2 x "of_int e"] by linarith
  moreover have "log 2 x < of_int (e + 1)"
    using assms(2) pos log_less_iff [of 2 x "of_int (e + 1)"] by linarith
  ultimately show ?thesis by (simp add: floor_eq_iff)
qed


lemma two_powr_int: "0 \<le> k \<Longrightarrow> (2::real) powr of_int k = of_int (2 ^ nat k)"
  by (simp add: powr_real_of_int)

lemma two_powr_diff: "(2::real) powr of_int a / 2 powr of_int b = 2 powr of_int (a - b)"
  by (simp add: powr_diff)

lemma two_powr_sum: "(2::real) powr of_int a * 2 powr of_int b = 2 powr of_int (a + b)"
  by (simp add: powr_add)

lemma ulp_eq: "ulp x = 2 powr of_int (max \<lfloor>log 2 x\<rfloor> (- 1022) - 52)"
  by (simp add: ulp_def)

lemma double_le_pow:
  assumes pos: "0 < x" and e: "- 1022 \<le> e" and le: "x \<le> 2 powr of_int e"
  shows "double x \<le> 2 powr of_int e"
proof -
  define E where "E = max \<lfloor>log 2 x\<rfloor> (- 1022)"
  have u: "ulp x = 2 powr of_int (E - 52)" by (simp add: ulp_def E_def)
  have "log 2 x \<le> of_int e"
    using le pos log_le_iff [of 2 x "of_int e"] by linarith
  then have "\<lfloor>log 2 x\<rfloor> \<le> e" by (simp add: floor_le_iff)
  then have Ee: "E \<le> e" using e by (simp add: E_def)
  have "x / ulp x \<le> 2 powr of_int e / 2 powr of_int (E - 52)"
    unfolding u using le by (intro divide_right_mono) simp_all
  also have "\<dots> = 2 powr of_int (e - (E - 52))"
    by (simp only: two_powr_diff)
  also have "e - (E - 52) = e - E + 52" by simp
  also have "2 powr of_int (e - E + 52) = real_of_int (2 ^ nat (e - E + 52))"
    using Ee by (intro two_powr_int) simp
  finally have "round_even (x / ulp x) \<le> round_even (of_int (2 ^ nat (e - E + 52)))"
    by (rule round_even_mono)
  then have "real_of_int (round_even (x / ulp x)) \<le> of_int (2 ^ nat (e - E + 52))"
    by (simp only: round_even_int of_int_le_iff)
  also have "\<dots> = 2 powr of_int (e - E + 52)"
    using Ee by (intro two_powr_int [symmetric]) simp
  finally have "real_of_int (round_even (x / ulp x)) * ulp x \<le> 2 powr of_int (e - E + 52) * ulp x"
    using ulp_pos [of x] by (intro mult_right_mono) simp_all
  also have "\<dots> = 2 powr of_int e"
    unfolding u by (simp add: powr_add [symmetric])
  finally show ?thesis by (simp add: double_pos_eq [OF pos])
qed

lemma double_ge_pow:
  assumes pos: "0 < y" and e: "- 1022 \<le> e" and le: "2 powr of_int e \<le> y"
  shows "2 powr of_int e \<le> double y"
proof -
  define E where "E = \<lfloor>log 2 y\<rfloor>"
  have "of_int e \<le> log 2 y"
    using le pos le_log_iff [of 2 y "of_int e"] by linarith
  then have eE: "e \<le> E" by (simp add: E_def le_floor_iff)
  then have "max \<lfloor>log 2 y\<rfloor> (- 1022) = E"
    using e unfolding E_def by linarith
  then have u: "ulp y = 2 powr of_int (E - 52)"
    by (simp only: ulp_eq)
  have "2 powr of_int E \<le> y" unfolding E_def using pos by (rule binade)
  then have "2 powr of_int E / 2 powr of_int (E - 52) \<le> y / ulp y"
    unfolding u by (intro divide_right_mono) simp_all
  moreover have "(2::real) powr of_int E / 2 powr of_int (E - 52) = of_int (2 ^ 52)"
  proof -
    have "(2::real) powr of_int E / 2 powr of_int (E - 52) = 2 powr of_int (E - (E - 52))"
      by (simp only: two_powr_diff)
    also have "E - (E - 52) = 52" by simp
    finally show ?thesis by simp
  qed
  ultimately have "real_of_int (2 ^ 52) \<le> y / ulp y" by simp
  then have "round_even (of_int (2 ^ 52)) \<le> round_even (y / ulp y)"
    by (rule round_even_mono)
  then have "real_of_int (2 ^ 52) \<le> of_int (round_even (y / ulp y))"
    by (simp only: round_even_int of_int_le_iff)
  then have "real_of_int (2 ^ 52) * ulp y \<le> of_int (round_even (y / ulp y)) * ulp y"
    using ulp_pos [of y] by (intro mult_right_mono) simp_all
  moreover have "real_of_int (2 ^ 52) * ulp y = 2 powr of_int E"
  proof -
    have "real_of_int (2 ^ 52) = 2 powr of_int 52" by simp
    then show ?thesis unfolding u by (simp only: two_powr_sum) simp
  qed
  moreover have "(2::real) powr of_int e \<le> 2 powr of_int E"
    using eE by simp
  ultimately show ?thesis unfolding double_pos_eq [OF pos] by linarith
qed

lemma double_mono_pos:
  assumes pos: "0 < x" and le: "x \<le> y"
  shows "double x \<le> double y"
proof -
  define ex where "ex = max \<lfloor>log 2 x\<rfloor> (- 1022)"
  define ey where "ey = max \<lfloor>log 2 y\<rfloor> (- 1022)"
  have ypos: "0 < y" using pos le by simp
  have "log 2 x \<le> log 2 y" using pos le by simp
  then have "\<lfloor>log 2 x\<rfloor> \<le> \<lfloor>log 2 y\<rfloor>" by (rule floor_mono)
  then have exy: "ex \<le> ey" by (simp add: ex_def ey_def)
  show ?thesis
  proof (cases "ex = ey")
    case True
    then have u: "ulp x = ulp y" by (simp add: ulp_def ex_def ey_def)
    have "x / ulp y \<le> y / ulp y"
      using le ulp_pos [of y] by (intro divide_right_mono) simp_all
    then have "round_even (x / ulp y) \<le> round_even (y / ulp y)"
      by (rule round_even_mono)
    then have "real_of_int (round_even (x / ulp y)) * ulp y \<le> of_int (round_even (y / ulp y)) * ulp y"
      using ulp_pos [of y] by (intro mult_right_mono) simp_all
    then show ?thesis
      by (simp add: double_pos_eq [OF pos] double_pos_eq [OF ypos] u)
  next
    case False
    with exy have lt: "ex + 1 \<le> ey" by simp
    then have eyl: "ey = \<lfloor>log 2 y\<rfloor>" and ey: "- 1022 \<le> ey"
      unfolding ex_def ey_def by linarith+
    have "x < 2 powr of_int (\<lfloor>log 2 x\<rfloor> + 1)" using pos by (rule binade)
    also have "\<dots> \<le> 2 powr of_int (ex + 1)" by (simp add: ex_def)
    finally have "double x \<le> 2 powr of_int (ex + 1)"
      by (intro double_le_pow [OF pos]) (simp_all add: ex_def)
    also have "\<dots> \<le> 2 powr of_int ey" using lt by simp
    also have "\<dots> \<le> double y"
      using ypos ey binade(1) [OF ypos] unfolding eyl by (intro double_ge_pow)
    finally show ?thesis .
  qed
qed

lemma double_mono: "x \<le> y \<Longrightarrow> double x \<le> double y"
proof -
  assume le: "x \<le> y"
  consider "0 < x" | "x \<le> 0" "0 \<le> y" | "y < 0" by linarith
  then show ?thesis
  proof cases
    case 1
    then show ?thesis using le by (rule double_mono_pos)
  next
    case 2
    have "double x \<le> 0" using 2(1) double_nonneg [of "- x"] by (simp add: double_minus)
    moreover have "0 \<le> double y" using 2(2) by (rule double_nonneg)
    ultimately show ?thesis by simp
  next
    case 3
    then have "double (- y) \<le> double (- x)" using le by (intro double_mono_pos) simp_all
    then show ?thesis by (simp add: double_minus)
  qed
qed

lemma double_repr_pos:
  assumes m: "0 < m" "m < 2 ^ 53" and j: "- 1074 \<le> j"
  shows "double (of_int m * 2 powr of_int j) = of_int m * 2 powr of_int j"
proof -
  define x where "x = real_of_int m * 2 powr of_int j"
  define E where "E = max \<lfloor>log 2 x\<rfloor> (- 1022)"
  have pos: "0 < x" using m by (simp add: x_def)
  have u: "ulp x = 2 powr of_int (E - 52)" by (simp add: ulp_def E_def)
  have "real_of_int m < of_int (2 ^ 53)" using m(2) by (simp only: of_int_less_iff)
  then have "x < of_int (2 ^ 53) * 2 powr of_int j"
    unfolding x_def by (intro mult_strict_right_mono) simp_all
  also have "\<dots> = 2 powr of_int (53 + j)"
  proof -
    have "real_of_int (2 ^ 53) = 2 powr of_int 53" by simp
    then show ?thesis by (simp only: two_powr_sum)
  qed
  finally have "log 2 x < of_int (53 + j)"
    using pos log_less_iff [of 2 x "of_int (53 + j)"] by linarith
  then have "\<lfloor>log 2 x\<rfloor> < 53 + j" by (simp add: floor_less_iff)
  then have Ej: "E - 52 \<le> j" using j by (simp add: E_def)
  have "x / ulp x = x / 2 powr of_int (E - 52)"
    by (simp only: u)
  also have "\<dots> = of_int m * (2 powr of_int j / 2 powr of_int (E - 52))"
    by (simp add: x_def)
  also have "\<dots> = of_int m * 2 powr of_int (j - (E - 52))"
    by (simp only: two_powr_diff)
  also have "\<dots> = of_int m * of_int (2 ^ nat (j - (E - 52)))"
    using Ej by (subst two_powr_int) simp_all
  also have "\<dots> = of_int (m * 2 ^ nat (j - (E - 52)))" by simp
  finally have r: "round_even (x / ulp x) = m * 2 ^ nat (j - (E - 52))"
    by (simp only: round_even_int)
  have "double x = of_int (m * 2 ^ nat (j - (E - 52))) * ulp x"
    by (simp only: double_pos_eq [OF pos] r)
  also have "\<dots> = of_int m * (of_int (2 ^ nat (j - (E - 52))) * 2 powr of_int (E - 52))"
    by (simp add: u)
  also have "of_int (2 ^ nat (j - (E - 52))) = (2::real) powr of_int (j - (E - 52))"
    using Ej by (subst two_powr_int) simp_all
  also have "(2::real) powr of_int (j - (E - 52)) * 2 powr of_int (E - 52) = 2 powr of_int j"
    by (simp only: two_powr_sum) simp
  finally show ?thesis by (simp add: x_def)
qed

lemma double_repr:
  assumes m: "\<bar>m\<bar> < 2 ^ 53" and j: "- 1074 \<le> j"
  shows "double (of_int m * 2 powr of_int j) = of_int m * 2 powr of_int j"
proof -
  consider "m = 0" | "0 < m" | "m < 0" by linarith
  then show ?thesis
  proof cases
    case 1
    then show ?thesis by simp
  next
    case 2
    then show ?thesis using m j by (intro double_repr_pos) simp_all
  next
    case 3
    then have "double (of_int (- m) * 2 powr of_int j) = of_int (- m) * 2 powr of_int j"
      using m j by (intro double_repr_pos) simp_all
    then show ?thesis using double_minus [of "of_int m * 2 powr of_int j"] by simp
  qed
qed


lemma double_of_int: "\<bar>k\<bar> < 2 ^ 53 \<Longrightarrow> double (of_int k) = of_int k"
  using double_repr [of k 0] by simp

lemma double_of_nat: "n < 2 ^ 53 \<Longrightarrow> double (of_nat n) = of_nat n"
  using double_of_int [of "int n"] by simp

lemma double_dyadic:
  assumes "\<bar>m\<bar> < 2 ^ 53" and "n \<le> 1074"
  shows "double (of_int m / 2 ^ n) = of_int m / 2 ^ n"
proof -
  have "(2::real) powr of_int (- int n) = 1 / 2 ^ n"
    by (simp add: powr_minus powr_realpow inverse_eq_divide)
  then show ?thesis
    using double_repr [of m "- int n"] assms by simp
qed

lemma double_idem: "double (double x) = double x"
proof -
  have pos: "double (double x) = double x" if pos: "0 < x" for x
  proof -
    define E where "E = max \<lfloor>log 2 x\<rfloor> (- 1022)"
    define r where "r = round_even (x / ulp x)"
    have u: "ulp x = 2 powr of_int (E - 52)" by (simp add: ulp_def E_def)
    have d: "double x = of_int r * 2 powr of_int (E - 52)"
      by (simp only: double_pos_eq [OF pos] r_def u)
    have E: "- 1022 \<le> E" by (simp add: E_def)
    have "x < 2 powr of_int (\<lfloor>log 2 x\<rfloor> + 1)" using pos by (rule binade)
    also have "\<dots> \<le> 2 powr of_int (E + 1)" by (simp add: E_def)
    finally have "x / ulp x \<le> 2 powr of_int (E + 1) / 2 powr of_int (E - 52)"
      unfolding u by (intro divide_right_mono) simp_all
    also have "\<dots> = 2 powr of_int (E + 1 - (E - 52))"
      by (simp only: two_powr_diff)
    also have "E + 1 - (E - 52) = 53" by simp
    also have "(2::real) powr of_int 53 = of_int (2 ^ 53)" by simp
    finally have "r \<le> round_even (of_int (2 ^ 53))"
      unfolding r_def by (rule round_even_mono)
    then have r53: "r \<le> 2 ^ 53" by (simp only: round_even_int)
    have r0: "0 \<le> r"
      unfolding r_def using pos ulp_pos [of x] by (intro round_even_nonneg) simp
    show ?thesis
    proof (cases "r = 2 ^ 53")
      case False
      with r53 r0 have "\<bar>r\<bar> < 2 ^ 53" by simp
      then show ?thesis unfolding d using E by (intro double_repr) simp_all
    next
      case True
      have "real_of_int r * 2 powr of_int (E - 52) = of_int (2 ^ 52) * (2 powr of_int 1 * 2 powr of_int (E - 52))"
        by (simp add: True)
      also have "\<dots> = of_int (2 ^ 52) * 2 powr of_int (1 + (E - 52))"
        by (simp only: two_powr_sum)
      finally have d': "double x = of_int (2 ^ 52) * 2 powr of_int (1 + (E - 52))"
        by (simp only: d)
      show ?thesis unfolding d' using E by (intro double_repr) simp_all
    qed
  qed
  consider "x = 0" | "0 < x" | "x < 0" by linarith
  then show ?thesis
  proof cases
    case 1
    then show ?thesis by simp
  next
    case 2
    then show ?thesis by (rule pos)
  next
    case 3
    then have "double (double (- x)) = double (- x)" by (intro pos) simp
    then show ?thesis by (simp add: double_minus)
  qed
qed

lemma double_scaled:
  assumes lo: "2 ^ 52 \<le> x * 2 ^ n" and hi: "x * 2 ^ n < 2 ^ 53" and n: "n \<le> 1074"
  shows "double x = of_int (round_even (x * 2 ^ n)) / 2 ^ n"
proof -
  define e where "e = 52 - int n"
  have p': "(2::real) powr (- real n) = 1 / 2 ^ n"
    by (simp add: powr_minus powr_realpow inverse_eq_divide)
  then have p: "(2::real) powr of_int (- int n) = 1 / 2 ^ n"
    by simp
  have pos: "0 < x"
  proof (rule ccontr)
    assume "\<not> 0 < x"
    then have "x * 2 ^ n \<le> 0" by (simp add: mult_le_0_iff)
    with lo show False by simp
  qed
  have "(2::real) powr of_int e = of_int (2 ^ 52) * 2 powr of_int (- int n)"
  proof -
    have "real_of_int (2 ^ 52) = 2 powr of_int 52" by simp
    then show ?thesis by (simp only: two_powr_sum e_def) simp
  qed
  then have pe: "(2::real) powr of_int e = 2 ^ 52 / 2 ^ n" by (simp add: p')
  have "(2::real) powr of_int (e + 1) = of_int (2 ^ 53) * 2 powr of_int (- int n)"
  proof -
    have "real_of_int (2 ^ 53) = 2 powr of_int 53" by simp
    then show ?thesis by (simp only: two_powr_sum e_def) simp
  qed
  then have pe1: "(2::real) powr of_int (e + 1) = 2 ^ 53 / 2 ^ n" by (simp add: p')
  have "2 powr of_int e \<le> x" unfolding pe using lo by (simp add: field_simps)
  moreover have "x < 2 powr of_int (e + 1)" unfolding pe1 using hi by (simp add: field_simps)
  ultimately have "\<lfloor>log 2 x\<rfloor> = e" by (rule floor_log_eq)
  moreover have "- 1022 \<le> e" using n by (simp add: e_def)
  ultimately have "ulp x = 2 powr of_int (e - 52)" by (simp add: ulp_def)
  also have "e - 52 = - int n" by (simp add: e_def)
  finally have u: "ulp x = 1 / 2 ^ n" by (simp only: p)
  show ?thesis by (simp add: double_pos_eq [OF pos] u)
qed

section \<open>The loops\<close>

lemma reads_in_bounds:
  assumes "0 < sr" and "0 \<le> minHz r"
  shows "0 \<le> range_lo fd sr r" and "range_hi fd sr r < int (length fd)"
    and "0 \<le> max 0 (getFrequencyBin (int (length fd)) (double (sr / 2)) f - k)"
    and "min (int (length fd) - 1) (getFrequencyBin (int (length fd)) (double (sr / 2)) f + k)
           < int (length fd)"
proof -
  have "0 \<le> double (minHz r * real (length fd))" and "0 \<le> double (sr / 2)"
    using assms by (simp_all add: double_nonneg)
  then have "0 \<le> double (minHz r * real (length fd)) / double (sr / 2)"
    by (rule divide_nonneg_nonneg)
  then have "0 \<le> double (double (minHz r * real (length fd)) / double (sr / 2))"
    by (rule double_nonneg)
  then show "0 \<le> range_lo fd sr r"
    by (simp add: range_lo_def)
qed (simp_all add: range_hi_def)

lemma running_sum_Nil: "running_sum a [] = a"
  by (simp add: running_sum_def)

lemma running_sum_Cons: "running_sum a (v # vs) = running_sum (double (a + v)) vs"
  by (simp add: running_sum_def)

lemma band_values_step:
  "i \<le> hi \<Longrightarrow> band_values fd i hi = val (fd ! nat i) # band_values fd (i + 1) hi"
  by (simp add: band_values_def upto_rec1)

lemma band_values_empty: "\<not> i \<le> hi \<Longrightarrow> band_values fd i hi = []"
  by (simp add: band_values_def)

lemma first_bin_step:
  "i \<le> hi \<Longrightarrow>
   first_bin fd i hi v = (if val (fd ! nat i) = v then Some i else first_bin fd (i + 1) hi v)"
  by (simp add: first_bin_def upto_rec1)

lemma Max_insert_max: "Max (insert (max p v) (set vs)) = Max (insert p (insert v (set vs)))"
proof -
  have "Max (insert p (insert v (set vs))) = max p (Max (insert v (set vs)))"
    by (rule Max_insert) auto
  also have "\<dots> = max p (if set vs = {} then v else max v (Max (set vs)))"
    by simp
  also have "\<dots> = Max (insert (max p v) (set vs))"
    by (simp add: max.assoc)
  finally show ?thesis by simp
qed

lemma Max_insert_ge: "p \<le> Max (insert p (set vs))"
  by simp

lemma Max_insert_absorb: "a \<le> p \<Longrightarrow> Max (insert p (insert a (set vs))) = Max (insert p (set vs))"
  using Max_insert_max [of p a vs] by (simp add: max_absorb1)

lemma Max_insert_swap: "p < a \<Longrightarrow> Max (insert p (insert a (set vs))) = Max (insert a (set vs))"
  using Max_insert_max [of p a vs] by (simp add: max_absorb2)

lemma fire_loop_eq:
  "fire_loop fd i hi p a c =
     (Max (insert p (set (band_values fd i hi))), running_sum a (band_values fd i hi),
      c + length (band_values fd i hi))"
proof (induction fd i hi p a c rule: fire_loop.induct)
  case (1 fd i hi p a c)
  show ?case
  proof (cases "i \<le> hi")
    case True
    then show ?thesis
      using "1.IH" [OF True]
      by (subst fire_loop.simps) (simp add: band_values_step Max_insert_max running_sum_Cons)
  next
    case False
    then show ?thesis
      by (subst fire_loop.simps) (simp add: band_values_empty running_sum_Nil)
  qed
qed

lemma first_bin_Some:
  assumes "v < Max (insert v (set (band_values fd lo hi)))"
  shows "\<exists>k. first_bin fd lo hi (Max (insert v (set (band_values fd lo hi)))) = Some k"
proof -
  let ?m = "Max (insert v (set (band_values fd lo hi)))"
  have "?m \<in> insert v (set (band_values fd lo hi))"
    by (rule Max_in) auto
  with assms have "?m \<in> set (band_values fd lo hi)" by auto
  then obtain k where "k \<in> set [lo..hi]" "val (fd ! nat k) = ?m"
    by (auto simp: band_values_def)
  then have "first_bin fd lo hi ?m \<noteq> None"
    unfolding first_bin_def find_None_iff by blast
  then show ?thesis by auto
qed

lemma scanned_step:
  assumes le: "i \<le> hi"
  shows "scanned fd ny i hi p a c f =
         scanned fd ny (i + 1) hi (if val (fd ! nat i) > p then val (fd ! nat i) else p)
           (double (a + val (fd ! nat i))) (c + 1)
           (if val (fd ! nat i) > p then bin_frequency fd ny i else f)"
proof -
  define v where "v = val (fd ! nat i)"
  define S where "S = band_values fd (i + 1) hi"
  define F where "F = bin_frequency fd ny i"
  define G where "G = (\<lambda>m d. case first_bin fd (i + 1) hi m of
                          Some k \<Rightarrow> bin_frequency fd ny k | None \<Rightarrow> (d::real))"
  define A where "A = running_sum (double (a + v)) S"
  have bv: "band_values fd i hi = v # S"
    by (simp add: v_def S_def band_values_step [OF le])
  have fb: "first_bin fd i hi x = (if v = x then Some i else first_bin fd (i + 1) hi x)" for x
    by (simp add: v_def first_bin_step [OF le])
  have new: "scanned fd ny (i + 1) hi q (double (a + v)) (c + 1) g =
        (Max (insert q (set S)), A, c + 1 + length S,
         if Max (insert q (set S)) > q then G (Max (insert q (set S))) g else g)" for q g
    by (simp add: scanned_def Let_def S_def G_def A_def)
  have old: "scanned fd ny i hi p a c f =
        (Max (insert p (insert v (set S))), A, c + 1 + length S,
         if Max (insert p (insert v (set S))) > p
         then (if v = Max (insert p (insert v (set S))) then F
               else G (Max (insert p (insert v (set S)))) f)
         else f)"
    unfolding scanned_def Let_def bv fb
    by (auto simp: G_def F_def A_def running_sum_Cons less_max_iff_disj)
  show ?thesis
  proof (cases "v > p")
    case True
    define m where "m = Max (insert v (set S))"
    have m0: "Max (insert p (insert v (set S))) = m"
      unfolding m_def using True by (rule Max_insert_swap)
    have vm: "v \<le> m" unfolding m_def by (rule Max_insert_ge)
    have pm: "p < m" using True vm by linarith
    have G: "v < m \<Longrightarrow> G m F = G m f"
      using first_bin_Some [of v fd "i + 1" hi] unfolding G_def m_def S_def by auto
    have "scanned fd ny i hi p a c f = (m, A, c + 1 + length S, if v = m then F else G m f)"
      unfolding old m0 using pm by simp
    also have "\<dots> = (m, A, c + 1 + length S, if m > v then G m F else F)"
      using vm G by auto
    also have "\<dots> = scanned fd ny (i + 1) hi v (double (a + v)) (c + 1) F"
      unfolding new m_def by simp
    finally show ?thesis
      using True unfolding v_def F_def by simp
  next
    case False
    have m0: "Max (insert p (insert v (set S))) = Max (insert p (set S))"
      using False by (intro Max_insert_absorb) simp
    have ne: "v \<noteq> Max (insert p (set S))" if "Max (insert p (set S)) > p"
      using that False by linarith
    have "scanned fd ny i hi p a c f = scanned fd ny (i + 1) hi p (double (a + v)) (c + 1) f"
      unfolding old new m0 using ne by auto
    then show ?thesis
      using False unfolding v_def by simp
  qed
qed

lemma range_loop_eq:
  "range_loop fd ny i mx p a c f = scanned fd ny i (min mx (int (length fd) - 1)) p a c f"
proof (induction fd ny i mx p a c f rule: range_loop.induct)
  case (1 fd ny i mx p a c f)
  let ?hi = "min mx (int (length fd) - 1)"
  show ?case
  proof (cases "i \<le> mx \<and> i < int (length fd)")
    case False
    then have "\<not> i \<le> ?hi" by auto
    moreover have "range_loop fd ny i mx p a c f = (p, a, c, f)"
      by (subst range_loop.simps) (use False in auto)
    ultimately show ?thesis
      by (simp add: scanned_def band_values_empty running_sum_Nil)
  next
    case True
    then have le: "i \<le> ?hi" by auto
    have "range_loop fd ny i mx p a c f =
        scanned fd ny (i + 1) ?hi (if val (fd ! nat i) > p then val (fd ! nat i) else p)
          (double (a + val (fd ! nat i))) (c + 1)
          (if val (fd ! nat i) > p then bin_frequency fd ny i else f)"
      using True "1.IH" [OF True refl]
      by (subst range_loop.simps) (simp add: Let_def bin_frequency_def)
    then show ?thesis
      by (simp only: scanned_step [OF le])
  qed
qed

section \<open>The classifiers in terms of bands\<close>

lemma fire_loop_band:
  "fire_loop fd lo hi 0 0 0 =
     (band_peak (band_values fd lo hi), running_sum 0 (band_values fd lo hi),
      length (band_values fd lo hi))"
  by (simp add: fire_loop_eq band_peak_def)

lemma mean_eq:
  "(if length vs > 0 then double (running_sum 0 vs / real (length vs)) else 0) = band_mean vs"
  by (simp add: band_mean_def)

lemma detectFireAlarm_eq:
  "detectFireAlarm en fd sr =
     (if fire en \<and> band_peak (fire_fundamental fd sr) > 120 \<and> band_mean (fire_fundamental fd sr) > 40
         \<and> band_peak (fire_harmonic fd sr) > 60
      then Some \<lparr> type = Fire,
                  confidence = fire_confidence (band_peak (fire_fundamental fd sr))
                                 (band_peak (fire_harmonic fd sr)) (band_mean (fire_fundamental fd sr)),
                  frequency = 3100, amplitude = band_peak (fire_fundamental fd sr) \<rparr>
      else None)"
  unfolding detectFireAlarm_def fire_fundamental_def fire_harmonic_def fire_confidence_def Let_def
    fire_loop_band prod.case mean_eq
  by simp

lemma range_loop_band:
  "range_loop fd (double (sr / 2)) (range_lo fd sr r)
     \<lceil>double (double (maxHz r * real (length fd)) / double (sr / 2))\<rceil> 0 0 0 0 =
     (range_peak fd sr r, running_sum 0 (range_values fd sr r), length (range_values fd sr r),
      if range_peak fd sr r > 0 then range_peak_freq fd sr r else 0)"
  unfolding range_loop_eq scanned_def Let_def range_peak_def range_values_def range_hi_def [symmetric]
    band_peak_def range_peak_freq_def
  by (simp split: option.splits)

lemma analyzeRange_eq:
  "analyzeRange fd (double (sr / 2)) r =
     \<lparr> peak = range_peak fd sr r, avg = range_mean fd sr r,
       peakFrequency = (if range_peak fd sr r > 0 then range_peak_freq fd sr r else 0) \<rparr>"
  unfolding analyzeRange_def Let_def range_lo_def [symmetric] range_loop_band prod.case mean_eq
  by (simp add: range_mean_def)

lemma empty_band_peak: "range_values fd sr r = [] \<Longrightarrow> range_peak fd sr r = 0"
  by (simp add: range_peak_def band_peak_def)

lemma doorbell_range_eq:
  "doorbell_range fd (double (sr / 2)) acc r =
     (if active fd sr r
      then acc \<lparr> totalScore := double (totalScore acc + double (range_peak fd sr r + range_mean fd sr r)),
                 weightedScore :=
                   double (weightedScore acc
                           + double (double (range_peak fd sr r + range_mean fd sr r) * weight r)),
                 activeRanges := activeRanges acc + 1,
                 dominantFreq := (if range_peak fd sr r > maxAmplitude acc then range_peak_freq fd sr r
                                  else dominantFreq acc),
                 maxAmplitude := (if range_peak fd sr r > maxAmplitude acc then range_peak fd sr r
                                  else maxAmplitude acc) \<rparr>
      else acc)"
proof (cases "range_values fd sr r = []")
  case True
  then show ?thesis
    unfolding doorbell_range_def Let_def range_lo_def [symmetric] range_loop_band prod.case
    by (simp add: active_def empty_band_peak)
next
  case False
  then show ?thesis
    unfolding doorbell_range_def Let_def range_lo_def [symmetric] range_loop_band prod.case
    by (auto simp: active_def range_mean_def band_mean_def)
qed

lemma doorbell_fold_sums:
  "weightedScore (foldl (doorbell_range fd (double (sr / 2))) acc rs) =
     foldl (\<lambda>s r. double (s + double (double (range_peak fd sr r + range_mean fd sr r) * weight r)))
       (weightedScore acc) (filter (active fd sr) rs)
   \<and> activeRanges (foldl (doorbell_range fd (double (sr / 2))) acc rs) =
     activeRanges acc + length (filter (active fd sr) rs)"
  by (induction rs arbitrary: acc) (simp_all add: doorbell_range_eq)

lemma find_Max_Some:
  assumes "m < Max (insert m (g ` set xs))"
  shows "\<exists>x. find (\<lambda>x. g x = Max (insert m (g ` set xs))) xs = Some x"
proof -
  let ?M = "Max (insert m (g ` set xs))"
  have "?M \<in> insert m (g ` set xs)" by (rule Max_in) auto
  with assms have "?M \<in> g ` set xs" by auto
  then have "find (\<lambda>x. g x = ?M) xs \<noteq> None"
    unfolding find_None_iff by auto
  then show ?thesis by auto
qed

lemma doorbell_fold_max:
  "maxAmplitude (foldl (doorbell_range fd (double (sr / 2))) acc rs) =
     Max (insert (maxAmplitude acc) (range_peak fd sr ` set (filter (active fd sr) rs)))
   \<and> dominantFreq (foldl (doorbell_range fd (double (sr / 2))) acc rs) =
     (if Max (insert (maxAmplitude acc) (range_peak fd sr ` set (filter (active fd sr) rs))) > maxAmplitude acc
      then (case find (\<lambda>r. range_peak fd sr r =
                       Max (insert (maxAmplitude acc) (range_peak fd sr ` set (filter (active fd sr) rs))))
                   (filter (active fd sr) rs) of
              Some r \<Rightarrow> range_peak_freq fd sr r | None \<Rightarrow> dominantFreq acc)
      else dominantFreq acc)"
proof (induction rs arbitrary: acc)
  case Nil
  show ?case by simp
next
  case (Cons r rs)
  let ?f = "doorbell_range fd (double (sr / 2))"
  define A where "A = filter (active fd sr) rs"
  define S where "S = range_peak fd sr ` set A"
  define v where "v = range_peak fd sr r"
  have finS: "finite S" unfolding S_def by simp
  show ?case
  proof (cases "active fd sr r")
    case False
    then have "?f acc r = acc" by (simp add: doorbell_range_eq)
    then show ?thesis using Cons.IH [of acc] False by simp
  next
    case act: True
    define acc' where "acc' = ?f acc r"
    have fold: "foldl ?f acc (r # rs) = foldl ?f acc' rs" by (simp add: acc'_def)
    have filt: "filter (active fd sr) (r # rs) = r # A" using act by (simp add: A_def)
    have img: "range_peak fd sr ` set (r # A) = insert v S" by (simp add: v_def S_def)
    note IH = Cons.IH [of acc', folded A_def S_def]
    show ?thesis
    proof (cases "v > maxAmplitude acc")
      case True
      have ma: "maxAmplitude acc' = v" and df: "dominantFreq acc' = range_peak_freq fd sr r"
        using act True by (simp_all add: acc'_def doorbell_range_eq v_def)
      define M where "M = Max (insert v S)"
      have M0: "Max (insert (maxAmplitude acc) (insert v S)) = M"
        unfolding M_def using finS True
        by (metis Max_insert_swap finite_list)
      have vM: "v \<le> M" unfolding M_def using finS by simp
      have pM: "maxAmplitude acc < M" using True vM by linarith
      have ex: "v < M \<Longrightarrow> \<exists>x. find (\<lambda>x. range_peak fd sr x = M) A = Some x"
        using find_Max_Some [of v "range_peak fd sr" A] unfolding M_def S_def by simp
      show ?thesis
        unfolding fold filt img M0 using IH pM vM ex
        unfolding ma df M_def [symmetric]
        by (auto simp: v_def)
    next
      case False
      have ma: "maxAmplitude acc' = maxAmplitude acc" and df: "dominantFreq acc' = dominantFreq acc"
        using act False by (simp_all add: acc'_def doorbell_range_eq v_def)
      have M0: "Max (insert (maxAmplitude acc) (insert v S)) = Max (insert (maxAmplitude acc) S)"
        using finS False by (metis Max_insert_absorb finite_list not_less)
      have ne: "v \<noteq> Max (insert (maxAmplitude acc) S)" if "Max (insert (maxAmplitude acc) S) > maxAmplitude acc"
        using that False by linarith
      show ?thesis
        unfolding fold filt img M0 using IH ne
        unfolding ma df
        by (auto simp: v_def)
    qed
  qed
qed

lemma active_peak_pos: "active fd sr r \<Longrightarrow> range_peak fd sr r > 0"
  by (simp add: active_def)

lemma doorbell_scan_eq:
  "weightedScore (doorbell_scan fd sr) = doorbell_score fd sr"
  "activeRanges (doorbell_scan fd sr) = length (active_ranges fd sr)"
  "maxAmplitude (doorbell_scan fd sr) = band_peak (map (range_peak fd sr) (active_ranges fd sr))"
  "dominantFreq (doorbell_scan fd sr) = doorbell_frequency fd sr"
proof -
  let ?A = "active_ranges fd sr"
  let ?M = "band_peak (map (range_peak fd sr) ?A)"
  show "weightedScore (doorbell_scan fd sr) = doorbell_score fd sr"
    "activeRanges (doorbell_scan fd sr) = length (active_ranges fd sr)"
    using doorbell_fold_sums [of fd sr doorbell_init ranges]
    by (simp_all add: doorbell_scan_def doorbell_score_def active_ranges_def doorbell_init_def)
  have M: "Max (insert (maxAmplitude doorbell_init) (range_peak fd sr ` set (filter (active fd sr) ranges))) = ?M"
    by (simp add: band_peak_def active_ranges_def doorbell_init_def)
  note fm = doorbell_fold_max [of fd sr doorbell_init ranges, unfolded M, folded active_ranges_def doorbell_scan_def]
  show "maxAmplitude (doorbell_scan fd sr) = ?M"
    using fm by simp
  have none: "find (\<lambda>r. range_peak fd sr r = ?M) ?A = None" if "\<not> ?M > 0"
  proof -
    have "\<forall>r \<in> set ?A. range_peak fd sr r \<le> ?M"
      by (simp add: band_peak_def)
    moreover have "\<forall>r \<in> set ?A. range_peak fd sr r > 0"
      by (simp add: active_ranges_def active_peak_pos)
    ultimately have "r \<notin> set ?A" for r using that by (metis less_le_trans)
    then have "?A = []" by (cases ?A) auto
    then show ?thesis by simp
  qed
  show "dominantFreq (doorbell_scan fd sr) = doorbell_frequency fd sr"
    using fm none
    by (auto simp: doorbell_frequency_def dominant_range_def doorbell_init_def split: option.splits)
qed

lemma detectDoorbell_eq:
  "detectDoorbell en fd sr =
     (if doorbell en \<and> 2 \<le> length (active_ranges fd sr) \<and> 180 < doorbell_score fd sr
      then Some \<lparr> type = Doorbell, confidence = min (double (doorbell_score fd sr / 350)) (double 0.95),
                  frequency = doorbell_frequency fd sr,
                  amplitude = band_peak (map (range_peak fd sr) (active_ranges fd sr)) \<rparr>
      else None)"
  by (simp add: detectDoorbell_def Let_def doorbell_scan_eq)

lemma baby_threshold: "double (45 * double 0.8) = 36"
proof -
  have d: "double 0.8 = 3602879701896397 / 2 ^ 52"
    by (subst double_scaled [where n = 53]) (simp_all add: round_even_def)
  show ?thesis
    unfolding d by (subst double_scaled [where n = 47]) (simp_all add: round_even_def)
qed

lemma val_byte: "\<exists>k < 256. val b = real k"
proof -
  have "unat b < 2 ^ LENGTH(8)" by (rule unsigned_less)
  then have "unat b < 256" by simp
  then show ?thesis unfolding val_def by blast
qed

lemma band_peak_byte: "\<exists>k < 256. band_peak (band_values fd lo hi) = real k"
proof -
  let ?S = "insert 0 (set (band_values fd lo hi))"
  have "Max ?S \<in> ?S" by (rule Max_in) auto
  then consider "Max ?S = 0" | i where "Max ?S = val (fd ! nat i)"
    by (auto simp: band_values_def)
  then show ?thesis
  proof cases
    case 1
    then show ?thesis by (auto simp: band_peak_def intro: exI [of _ 0])
  next
    case 2
    with val_byte [of "fd ! nat i"] show ?thesis
      unfolding band_peak_def by auto
  qed
qed

lemma range_peak_byte: "\<exists>k < 256. range_peak fd sr r = real k"
  unfolding range_peak_def range_values_def by (rule band_peak_byte)

lemma peaks_exact:
  "double (double (range_peak fd sr a + range_peak fd sr b) + range_peak fd sr c) =
     range_peak fd sr a + range_peak fd sr b + range_peak fd sr c"
proof -
  obtain i j k where i: "i < 256" "range_peak fd sr a = real i"
    and j: "j < 256" "range_peak fd sr b = real j" and k: "k < 256" "range_peak fd sr c = real k"
    using range_peak_byte [of fd sr a] range_peak_byte [of fd sr b] range_peak_byte [of fd sr c]
    by auto
  have "double (real (i + j)) = real (i + j)"
    using i(1) j(1) by (intro double_of_nat) simp
  moreover have "double (real (i + j + k)) = real (i + j + k)"
    using i(1) j(1) k(1) by (intro double_of_nat) simp
  ultimately show ?thesis
    by (simp add: i(2) j(2) k(2))
qed

lemma detectBabyCrying_eq:
  "detectBabyCrying en fd sr =
     (let f = \<lparr> minHz = 250, maxHz = 600 \<rparr>; h1 = \<lparr> minHz = 800, maxHz = 1400 \<rparr>;
          h2 = \<lparr> minHz = 1600, maxHz = 2800 \<rparr>; h3 = \<lparr> minHz = 3000, maxHz = 4500 \<rparr>
      in if baby en \<and> range_peak fd sr f > 80 \<and> range_mean fd sr f > 35
            \<and> (range_peak fd sr h1 > 45 \<or> range_peak fd sr h2 > 45 \<or> range_peak fd sr h3 > 36)
         then Some \<lparr> type = Baby,
                     confidence = baby_confidence (range_peak fd sr f)
                        (range_peak fd sr h1 + range_peak fd sr h2 + range_peak fd sr h3)
                        (range_mean fd sr f),
                     frequency = range_peak_freq fd sr f, amplitude = range_peak fd sr f \<rparr>
         else None)"
  unfolding detectBabyCrying_def Let_def analyzeRange_eq baby_confidence_def baby_threshold
  by (auto simp: peaks_exact)

lemma detect_types:
  "detectFireAlarm en fd sr = Some c \<Longrightarrow> type c = Fire"
  "detectDoorbell en fd sr = Some c \<Longrightarrow> type c = Doorbell"
  "detectBabyCrying en fd sr = Some c \<Longrightarrow> type c = Baby"
  by (auto simp: detectFireAlarm_eq detectDoorbell_eq detectBabyCrying_eq Let_def split: if_splits)

section \<open>The event gate\<close>

lemma process_detection_eq:
  "process_detection t (m, out) d = (if passes m t d then (m(type d \<mapsto> t), out @ [d]) else (m, out))"
  by (auto simp: process_detection_def passes_def)

lemma passes_other: "type d' \<noteq> k \<Longrightarrow> passes (m(k \<mapsto> t)) t' d' = passes m t' d'"
  by (simp add: passes_def lastDetection_def)

lemma gate_fold:
  "distinct (map type ds) \<Longrightarrow>
   foldl (process_detection t) (m, out) ds =
     ((\<lambda>k. if \<exists>d \<in> set ds. type d = k \<and> passes m t d then Some t else m k),
      out @ filter (passes m t) ds)"
proof (induction ds arbitrary: m out)
  case Nil
  show ?case by simp
next
  case (Cons d ds)
  from Cons.prems have dist: "distinct (map type ds)" and notin: "type d \<notin> type ` set ds"
    by simp_all
  from notin have fresh: "\<forall>d' \<in> set ds. type d' \<noteq> type d"
    by (metis imageI)
  show ?case
  proof (cases "passes m t d")
    case True
    define m' where "m' = m(type d \<mapsto> t)"
    have same: "filter (passes m' t) ds = filter (passes m t) ds"
      unfolding m'_def using fresh by (intro filter_cong) (auto simp: passes_other)
    have maps: "(\<lambda>k. if \<exists>d' \<in> set ds. type d' = k \<and> passes m' t d' then Some t else m' k) =
          (\<lambda>k. if \<exists>d' \<in> set (d # ds). type d' = k \<and> passes m t d' then Some t else m k)"
      unfolding m'_def using fresh True by (auto simp: fun_eq_iff passes_other)
    have "foldl (process_detection t) (m, out) (d # ds) = foldl (process_detection t) (m', out @ [d]) ds"
      using True by (simp add: process_detection_eq m'_def)
    also have "\<dots> = ((\<lambda>k. if \<exists>d' \<in> set ds. type d' = k \<and> passes m' t d' then Some t else m' k),
                      (out @ [d]) @ filter (passes m' t) ds)"
      by (rule Cons.IH [OF dist])
    also have "\<dots> = ((\<lambda>k. if \<exists>d' \<in> set (d # ds). type d' = k \<and> passes m t d' then Some t else m k),
                      out @ filter (passes m t) (d # ds))"
      unfolding maps same using True by simp
    finally show ?thesis .
  next
    case False
    have maps: "(\<lambda>k. if \<exists>d' \<in> set ds. type d' = k \<and> passes m t d' then Some t else m k) =
          (\<lambda>k. if \<exists>d' \<in> set (d # ds). type d' = k \<and> passes m t d' then Some t else m k)"
      using False by (auto simp: fun_eq_iff)
    have "foldl (process_detection t) (m, out) (d # ds) = foldl (process_detection t) (m, out) ds"
      using False by (simp add: process_detection_eq)
    also have "\<dots> = ((\<lambda>k. if \<exists>d' \<in> set ds. type d' = k \<and> passes m t d' then Some t else m k),
                      out @ filter (passes m t) ds)"
      by (rule Cons.IH [OF dist])
    also have "\<dots> = ((\<lambda>k. if \<exists>d' \<in> set (d # ds). type d' = k \<and> passes m t d' then Some t else m k),
                      out @ filter (passes m t) (d # ds))"
      unfolding maps using False by simp
    finally show ?thesis .
  qed
qed

lemma detections_cases:
  "detections en fd sr =
     (case detectFireAlarm en fd sr of None \<Rightarrow> [] | Some c \<Rightarrow> [c])
     @ (case detectDoorbell en fd sr of None \<Rightarrow> [] | Some c \<Rightarrow> [c])
     @ (case detectBabyCrying en fd sr of None \<Rightarrow> [] | Some c \<Rightarrow> [c])"
  by (simp add: detections_def split: option.splits)

lemma detections_distinct: "distinct (map type (detections en fd sr))"
  by (auto simp: detections_cases detect_types split: option.splits)

lemma detections_member:
  "d \<in> set (detections en fd sr) \<longleftrightarrow>
     detectFireAlarm en fd sr = Some d \<or> detectDoorbell en fd sr = Some d
     \<or> detectBabyCrying en fd sr = Some d"
  by (auto simp: detections_cases split: option.splits)

lemma analyzeAudio_eq:
  assumes "analyserRef h = Some a" and "audioContextRef h = Some ctx"
  shows "analyzeAudio p inp h =
     (h \<lparr> smoothedLevelRef := smooth (targetLevel (timeData inp)) (smoothedLevelRef h),
          audioLevel := smooth (targetLevel (timeData inp)) (smoothedLevelRef h),
          frequencyHistoryRef := push_history (frequencyHistoryRef h) (frequencyData inp),
          lastDetectionRef :=
            (\<lambda>k. if \<exists>d \<in> set (detections (enabledSounds p) (frequencyData inp) (sampleRate ctx)).
                       type d = k \<and> passes (lastDetectionRef h) (now inp) d
                 then Some (now inp) else lastDetectionRef h k),
          animationFrameRef := (if isListening p then True else animationFrameRef h) \<rparr>,
      filter (passes (lastDetectionRef h) (now inp))
        (detections (enabledSounds p) (frequencyData inp) (sampleRate ctx)))"
  using assms
  by (simp add: analyzeAudio_def Let_def gate_fold [OF detections_distinct])

lemma analyzeAudio_skip:
  "analyserRef h = None \<or> audioContextRef h = None \<Longrightarrow> analyzeAudio p inp h = (h, [])"
  by (auto simp: analyzeAudio_def split: option.splits)


section \<open>Doubles that need no rounding\<close>

lemma double_numeral: "(numeral n :: nat) < 2 ^ 53 \<Longrightarrow> double (numeral n) = numeral n"
  using double_of_nat [of "numeral n"] by simp

lemma double_one [simp]: "double 1 = 1"
  using double_of_nat [of 1] by simp

lemma double_half [simp]: "double (1 / 2) = 1 / 2"
  using double_dyadic [of 1 1] by simp

lemma double_le_one: "x \<le> 1 \<Longrightarrow> double x \<le> 1"
  using double_mono [of x 1] by simp

lemma double_ge_one: "1 \<le> x \<Longrightarrow> 1 \<le> double x"
  using double_mono [of 1 x] by simp

lemma val_double: "double (val b) = val b"
proof -
  obtain k where "k < 256" "val b = real k" using val_byte by blast
  then show ?thesis using double_of_nat [of k] by simp
qed

lemma val_nonneg: "0 \<le> val b"
  unfolding val_def by (rule of_nat_0_le_iff)

text \<open>
  Rounding leaves the integer part of a number alone, unless the number lies within
  \<open>2 ^ -20\<close> of the next integer.
\<close>

lemma floor_double:
  assumes "of_int k \<le> x" and "x \<le> of_int k + 1 - 1 / 2 ^ 20" and "\<bar>k\<bar> < 2 ^ 30"
  shows "\<lfloor>double x\<rfloor> = k"
proof -
  have "double (of_int k) = of_int k"
    using assms(3) by (intro double_of_int) simp
  then have lo: "of_int k \<le> double x"
    using double_mono [OF assms(1)] by simp
  have b: "real_of_int k + 1 - 1 / 2 ^ 20 = of_int ((k + 1) * 2 ^ 20 - 1) / 2 ^ 20"
    by (simp add: field_simps)
  have "double (of_int ((k + 1) * 2 ^ 20 - 1) / 2 ^ 20) = of_int ((k + 1) * 2 ^ 20 - 1) / 2 ^ 20"
    using assms(3) by (intro double_dyadic) simp_all
  then have "double x \<le> of_int k + 1 - 1 / 2 ^ 20"
    using double_mono [OF assms(2)] unfolding b by simp
  then have "double x < of_int k + 1" by simp
  with lo show ?thesis by (simp add: floor_eq_iff)
qed

lemma ceiling_double:
  assumes "of_int k - 1 + 1 / 2 ^ 20 \<le> x" and "x \<le> of_int k" and "\<bar>k\<bar> < 2 ^ 30"
  shows "\<lceil>double x\<rceil> = k"
proof -
  have "double (of_int k) = of_int k"
    using assms(3) by (intro double_of_int) simp
  then have hi: "double x \<le> of_int k"
    using double_mono [OF assms(2)] by simp
  have b: "real_of_int k - 1 + 1 / 2 ^ 20 = of_int ((k - 1) * 2 ^ 20 + 1) / 2 ^ 20"
    by (simp add: field_simps)
  have "double (of_int ((k - 1) * 2 ^ 20 + 1) / 2 ^ 20) = of_int ((k - 1) * 2 ^ 20 + 1) / 2 ^ 20"
    using assms(3) by (intro double_dyadic) simp_all
  then have "of_int k - 1 + 1 / 2 ^ 20 \<le> double x"
    using double_mono [OF assms(1)] unfolding b by simp
  then have "of_int k - 1 < double x" by simp
  with hi show ?thesis by (simp add: ceiling_eq_iff)
qed

lemma round_double:
  assumes "of_int k - 1 / 2 \<le> x" and "x \<le> of_int k + 1 / 2 - 1 / 2 ^ 20" and "\<bar>k\<bar> < 2 ^ 30"
  shows "Math_round (double x) = k"
proof -
  have a: "real_of_int k - 1 / 2 = of_int (2 * k - 1) / 2 ^ 1" by (simp add: field_simps)
  have "double (of_int (2 * k - 1) / 2 ^ 1) = of_int (2 * k - 1) / 2 ^ 1"
    using assms(3) by (intro double_dyadic) simp_all
  then have lo: "of_int k - 1 / 2 \<le> double x"
    using double_mono [OF assms(1)] unfolding a by simp
  have b: "real_of_int k + 1 / 2 - 1 / 2 ^ 20 = of_int ((2 * k + 1) * 2 ^ 19 - 1) / 2 ^ 20"
    by (simp add: field_simps)
  have "double (of_int ((2 * k + 1) * 2 ^ 19 - 1) / 2 ^ 20) = of_int ((2 * k + 1) * 2 ^ 19 - 1) / 2 ^ 20"
    using assms(3) by (intro double_dyadic) simp_all
  then have "double x \<le> of_int k + 1 / 2 - 1 / 2 ^ 20"
    using double_mono [OF assms(2)] unfolding b by simp
  then have "double x + 1 / 2 < of_int k + 1" by simp
  moreover have "of_int k \<le> double x + 1 / 2" using lo by simp
  ultimately show ?thesis unfolding Math_round_def by (simp add: floor_eq_iff)
qed

text \<open>The rounded sum of fewer than \<open>2 ^ 44\<close> bytes is their sum.\<close>

lemma running_sum_exact:
  assumes "\<forall>v \<in> set vs. \<exists>k < 256. v = real k" and "n + 256 * length vs \<le> 2 ^ 53"
  shows "running_sum (real n) vs = real n + sum_list vs"
  using assms
proof (induction vs arbitrary: n)
  case Nil
  show ?case by (simp add: running_sum_Nil)
next
  case (Cons v vs)
  from Cons.prems(1) obtain k where k: "k < 256" "v = real k" by auto
  have "n + k < 2 ^ 53" using Cons.prems(2) k(1) by simp
  then have d: "double (real n + v) = real (n + k)"
    using double_of_nat [of "n + k"] by (simp add: k(2))
  have "running_sum (real (n + k)) vs = real (n + k) + sum_list vs"
    using Cons.prems k(1) by (intro Cons.IH) simp_all
  then show ?case
    unfolding running_sum_Cons d by (simp add: k(2))
qed

lemma band_values_bytes: "\<forall>v \<in> set (band_values fd lo hi). \<exists>k < 256. v = real k"
  by (auto simp: band_values_def val_byte)

lemma band_values_length: "0 \<le> lo \<Longrightarrow> hi < int (length fd) \<Longrightarrow> length (band_values fd lo hi) \<le> length fd"
  by (simp add: band_values_def)

lemma band_mean_exact:
  assumes "0 \<le> lo" and "hi < int (length fd)" and "length fd < 2 ^ 44"
  shows "band_mean (band_values fd lo hi) =
           (if band_values fd lo hi = [] then 0
            else double (sum_list (band_values fd lo hi) / real (length (band_values fd lo hi))))"
proof -
  have "length (band_values fd lo hi) < 2 ^ 44"
    using band_values_length [OF assms(1,2)] assms(3) by simp
  then have "0 + 256 * length (band_values fd lo hi) \<le> 2 ^ 53" by simp
  from running_sum_exact [OF band_values_bytes this]
  show ?thesis by (simp add: band_mean_def)
qed

section \<open>Spectra of one magnitude\<close>

lemma band_values_replicate:
  assumes "0 \<le> lo" and "hi < int n"
  shows "band_values (replicate n b) lo hi = replicate (nat (hi - lo + 1)) (val b)"
proof -
  have "\<forall>i \<in> set [lo..hi]. val (replicate n b ! nat i) = val b"
    using assms by auto
  then have "map (\<lambda>i. val (replicate n b ! nat i)) [lo..hi] = map (\<lambda>i. val b) [lo..hi]"
    by (intro map_cong) auto
  then show ?thesis
    by (simp add: band_values_def map_replicate_const)
qed

lemma band_peak_replicate: "0 < k \<Longrightarrow> band_peak (replicate k (val b)) = val b"
  using val_nonneg [of b] by (simp add: band_peak_def max_absorb2)

lemma band_mean_replicate:
  assumes "0 < k" and "k < 2 ^ 44"
  shows "band_mean (replicate k (val b)) = val b"
proof -
  have "\<forall>v \<in> set (replicate k (val b)). \<exists>j < 256. v = real j"
    using val_byte [of b] by auto
  moreover have "0 + 256 * length (replicate k (val b)) \<le> 2 ^ 53"
    using assms(2) by simp
  ultimately have "running_sum (real 0) (replicate k (val b)) = real 0 + sum_list (replicate k (val b))"
    by (rule running_sum_exact)
  then have "running_sum 0 (replicate k (val b)) = real k * val b"
    by (simp add: sum_list_replicate)
  then show ?thesis
    using assms(1) by (simp add: band_mean_def val_double)
qed

lemma first_bin_replicate:
  assumes "0 \<le> lo" and "lo \<le> hi" and "lo < int n"
  shows "first_bin (replicate n b) lo hi (val b) = Some lo"
  using assms by (simp add: first_bin_step)

lemma range_constant:
  assumes "0 \<le> range_lo (replicate n b) sr r"
    and "range_lo (replicate n b) sr r \<le> range_hi (replicate n b) sr r"
    and "n < 2 ^ 44"
  shows "range_peak (replicate n b) sr r = val b"
    and "range_mean (replicate n b) sr r = val b"
    and "range_peak_freq (replicate n b) sr r =
           bin_frequency (replicate n b) (double (sr / 2)) (range_lo (replicate n b) sr r)"
proof -
  let ?fd = "replicate n b"
  have hi: "range_hi ?fd sr r < int n"
    using assms by (simp add: range_hi_def)
  have vs: "range_values ?fd sr r = replicate (nat (range_hi ?fd sr r - range_lo ?fd sr r + 1)) (val b)"
    unfolding range_values_def using assms(1) hi by (rule band_values_replicate)
  have pos: "0 < nat (range_hi ?fd sr r - range_lo ?fd sr r + 1)"
    using assms(2) by simp
  have small: "nat (range_hi ?fd sr r - range_lo ?fd sr r + 1) < 2 ^ 44"
    using assms hi by simp
  show pk: "range_peak ?fd sr r = val b"
    unfolding range_peak_def vs using pos by (rule band_peak_replicate)
  show "range_mean ?fd sr r = val b"
    unfolding range_mean_def vs using pos small by (rule band_mean_replicate)
  have "first_bin ?fd (range_lo ?fd sr r) (range_hi ?fd sr r) (val b) = Some (range_lo ?fd sr r)"
    using assms hi by (intro first_bin_replicate) auto
  then show "range_peak_freq ?fd sr r = bin_frequency ?fd (double (sr / 2)) (range_lo ?fd sr r)"
    by (simp add: range_peak_freq_def pk)
qed

text \<open>The bins at 8192 bins and 48 kHz, the configuration of the hook.\<close>

lemma nyquist_48k: "double (48000 / 2) = 24000"
  by (simp add: double_numeral)

lemma bins_48k:
  assumes len: "length fd = 8192"
  shows "range_lo fd 48000 \<lparr> minHz = 350, maxHz = 550, \<dots> = x \<rparr> = 119"
  "range_hi fd 48000 \<lparr> minHz = 350, maxHz = 550, \<dots> = x \<rparr> = 188"
  "range_lo fd 48000 \<lparr> minHz = 700, maxHz = 1000, \<dots> = x \<rparr> = 238"
  "range_hi fd 48000 \<lparr> minHz = 700, maxHz = 1000, \<dots> = x \<rparr> = 342"
  "range_lo fd 48000 \<lparr> minHz = 1200, maxHz = 1600, \<dots> = x \<rparr> = 409"
  "range_hi fd 48000 \<lparr> minHz = 1200, maxHz = 1600, \<dots> = x \<rparr> = 547"
  "range_lo fd 48000 \<lparr> minHz = 250, maxHz = 600, \<dots> = x \<rparr> = 85"
  "range_hi fd 48000 \<lparr> minHz = 250, maxHz = 600, \<dots> = x \<rparr> = 205"
  "range_lo fd 48000 \<lparr> minHz = 800, maxHz = 1400, \<dots> = x \<rparr> = 273"
  "range_hi fd 48000 \<lparr> minHz = 800, maxHz = 1400, \<dots> = x \<rparr> = 478"
  "range_lo fd 48000 \<lparr> minHz = 1600, maxHz = 2800, \<dots> = x \<rparr> = 546"
  "range_hi fd 48000 \<lparr> minHz = 1600, maxHz = 2800, \<dots> = x \<rparr> = 956"
  "range_lo fd 48000 \<lparr> minHz = 3000, maxHz = 4500, \<dots> = x \<rparr> = 1024"
  "range_hi fd 48000 \<lparr> minHz = 3000, maxHz = 4500, \<dots> = x \<rparr> = 1536"
proof -
  have f: "\<lfloor>double (real_of_int m / 24000)\<rfloor> = k"
    if "real_of_int k \<le> real_of_int m / 24000" "real_of_int m / 24000 \<le> real_of_int k + 1 - 1 / 2 ^ 20"
       "\<bar>k\<bar> < 2 ^ 30" for m k
    using that by (rule floor_double)
  have c: "\<lceil>double (real_of_int m / 24000)\<rceil> = k"
    if "real_of_int k - 1 + 1 / 2 ^ 20 \<le> real_of_int m / 24000" "real_of_int m / 24000 \<le> real_of_int k"
       "\<bar>k\<bar> < 2 ^ 30" for m k
    using that by (rule ceiling_double)
  show "range_lo fd 48000 \<lparr> minHz = 350, maxHz = 550, \<dots> = x \<rparr> = 119"
    using f [of 119 2867200] by (simp add: range_lo_def len double_numeral)
  show "range_hi fd 48000 \<lparr> minHz = 350, maxHz = 550, \<dots> = x \<rparr> = 188"
    using c [of 188 4505600] by (simp add: range_hi_def len double_numeral)
  show "range_lo fd 48000 \<lparr> minHz = 700, maxHz = 1000, \<dots> = x \<rparr> = 238"
    using f [of 238 5734400] by (simp add: range_lo_def len double_numeral)
  show "range_hi fd 48000 \<lparr> minHz = 700, maxHz = 1000, \<dots> = x \<rparr> = 342"
    using c [of 342 8192000] by (simp add: range_hi_def len double_numeral)
  show "range_lo fd 48000 \<lparr> minHz = 1200, maxHz = 1600, \<dots> = x \<rparr> = 409"
    using f [of 409 9830400] by (simp add: range_lo_def len double_numeral)
  show "range_hi fd 48000 \<lparr> minHz = 1200, maxHz = 1600, \<dots> = x \<rparr> = 547"
    using c [of 547 13107200] by (simp add: range_hi_def len double_numeral)
  show "range_lo fd 48000 \<lparr> minHz = 250, maxHz = 600, \<dots> = x \<rparr> = 85"
    using f [of 85 2048000] by (simp add: range_lo_def len double_numeral)
  show "range_hi fd 48000 \<lparr> minHz = 250, maxHz = 600, \<dots> = x \<rparr> = 205"
    using c [of 205 4915200] by (simp add: range_hi_def len double_numeral)
  show "range_lo fd 48000 \<lparr> minHz = 800, maxHz = 1400, \<dots> = x \<rparr> = 273"
    using f [of 273 6553600] by (simp add: range_lo_def len double_numeral)
  show "range_hi fd 48000 \<lparr> minHz = 800, maxHz = 1400, \<dots> = x \<rparr> = 478"
    using c [of 478 11468800] by (simp add: range_hi_def len double_numeral)
  show "range_lo fd 48000 \<lparr> minHz = 1600, maxHz = 2800, \<dots> = x \<rparr> = 546"
    using f [of 546 13107200] by (simp add: range_lo_def len double_numeral)
  show "range_hi fd 48000 \<lparr> minHz = 1600, maxHz = 2800, \<dots> = x \<rparr> = 956"
    using c [of 956 22937600] by (simp add: range_hi_def len double_numeral)
  show "range_lo fd 48000 \<lparr> minHz = 3000, maxHz = 4500, \<dots> = x \<rparr> = 1024"
    using f [of 1024 24576000] by (simp add: range_lo_def len double_numeral)
  show "range_hi fd 48000 \<lparr> minHz = 3000, maxHz = 4500, \<dots> = x \<rparr> = 1536"
    using c [of 1536 36864000] by (simp add: range_hi_def len double_numeral)
qed

lemma fire_bins_48k:
  "getFrequencyBin 8192 24000 3100 = 1058" "getFrequencyBin 8192 24000 6200 = 2116"
proof -
  have r: "Math_round (double (real_of_int m / 24000)) = k"
    if "real_of_int k - 1 / 2 \<le> real_of_int m / 24000"
       "real_of_int m / 24000 \<le> real_of_int k + 1 / 2 - 1 / 2 ^ 20" "\<bar>k\<bar> < 2 ^ 30" for m k
    using that by (rule round_double)
  show "getFrequencyBin 8192 24000 3100 = 1058"
    using r [of 1058 25395200] by (simp add: getFrequencyBin_def double_numeral)
  show "getFrequencyBin 8192 24000 6200 = 2116"
    using r [of 2116 50790400] by (simp add: getFrequencyBin_def double_numeral)
qed

lemma fire_windows_48k:
  "fire_fundamental (replicate 8192 b) 48000 = replicate 17 (val b)"
  "fire_harmonic (replicate 8192 b) 48000 = replicate 13 (val b)"
  by (simp_all add: fire_fundamental_def fire_harmonic_def Let_def double_numeral fire_bins_48k
        band_values_replicate)

lemma fire_constant:
  "detectFireAlarm en (replicate 8192 b) 48000 =
     (if fire en \<and> val b > 120
      then Some \<lparr> type = Fire, confidence = fire_confidence (val b) (val b) (val b),
                  frequency = 3100, amplitude = val b \<rparr>
      else None)"
  unfolding detectFireAlarm_eq fire_windows_48k
  by (simp add: band_peak_replicate band_mean_replicate)

lemma range_constant_48k:
  "range_peak (replicate 8192 b) 48000 \<lparr> minHz = 350, maxHz = 550, \<dots> = x \<rparr> = val b"
  "range_mean (replicate 8192 b) 48000 \<lparr> minHz = 350, maxHz = 550, \<dots> = x \<rparr> = val b"
  "range_peak (replicate 8192 b) 48000 \<lparr> minHz = 700, maxHz = 1000, \<dots> = x \<rparr> = val b"
  "range_mean (replicate 8192 b) 48000 \<lparr> minHz = 700, maxHz = 1000, \<dots> = x \<rparr> = val b"
  "range_peak (replicate 8192 b) 48000 \<lparr> minHz = 1200, maxHz = 1600, \<dots> = x \<rparr> = val b"
  "range_mean (replicate 8192 b) 48000 \<lparr> minHz = 1200, maxHz = 1600, \<dots> = x \<rparr> = val b"
  "range_peak (replicate 8192 b) 48000 \<lparr> minHz = 250, maxHz = 600, \<dots> = x \<rparr> = val b"
  "range_mean (replicate 8192 b) 48000 \<lparr> minHz = 250, maxHz = 600, \<dots> = x \<rparr> = val b"
  "range_peak (replicate 8192 b) 48000 \<lparr> minHz = 800, maxHz = 1400, \<dots> = x \<rparr> = val b"
  "range_peak (replicate 8192 b) 48000 \<lparr> minHz = 1600, maxHz = 2800, \<dots> = x \<rparr> = val b"
  "range_peak (replicate 8192 b) 48000 \<lparr> minHz = 3000, maxHz = 4500, \<dots> = x \<rparr> = val b"
  by (simp_all add: range_constant bins_48k)

lemma range_freq_constant_48k:
  "range_peak_freq (replicate 8192 b) 48000 \<lparr> minHz = 350, maxHz = 550, \<dots> = x \<rparr> = 44625 / 128"
  "range_peak_freq (replicate 8192 b) 48000 \<lparr> minHz = 250, maxHz = 600, \<dots> = x \<rparr> = 31875 / 128"
proof -
  have a: "double (44625 / 128) = 44625 / 128" using double_dyadic [of 44625 7] by simp
  have b: "double (31875 / 128) = 31875 / 128" using double_dyadic [of 31875 7] by simp
  show "range_peak_freq (replicate 8192 b) 48000 \<lparr> minHz = 350, maxHz = 550, \<dots> = x \<rparr> = 44625 / 128"
    by (simp add: range_constant bins_48k bin_frequency_def nyquist_48k double_numeral a)
  show "range_peak_freq (replicate 8192 b) 48000 \<lparr> minHz = 250, maxHz = 600, \<dots> = x \<rparr> = 31875 / 128"
    by (simp add: range_constant bins_48k bin_frequency_def nyquist_48k double_numeral b)
qed

lemma active_constant: "active (replicate 8192 b) 48000 r = (val b > 65)" if "r \<in> set ranges"
  using that by (auto simp: ranges_def active_def range_constant_48k)

lemma active_ranges_constant:
  "active_ranges (replicate 8192 b) 48000 = (if val b > 65 then ranges else [])"
  by (simp add: active_ranges_def active_constant cong: filter_cong)

lemma baby_constant:
  "detectBabyCrying en (replicate 8192 b) 48000 =
     (if baby en \<and> val b > 80
      then Some \<lparr> type = Baby, confidence = baby_confidence (val b) (3 * val b) (val b),
                  frequency = 31875 / 128, amplitude = val b \<rparr>
      else None)"
  unfolding detectBabyCrying_eq Let_def range_constant_48k range_freq_constant_48k
  by auto

section \<open>The literals of the hook and the saturated spectrum\<close>

lemma literals:
  "double (3 / 10) = 5404319552844595 / 2 ^ 54"
  "double (2 / 5) = 3602879701896397 / 2 ^ 53"
  "double (1 / 5) = 3602879701896397 / 2 ^ 54"
  "double (4 / 5) = 3602879701896397 / 2 ^ 52"
  "double (7 / 10) = 3152519739159347 / 2 ^ 52"
  by (subst double_scaled [where n = 54], simp_all add: round_even_def)
     (subst double_scaled [where n = 54], simp_all add: round_even_def,
      subst double_scaled [where n = 55], simp_all add: round_even_def,
      subst double_scaled [where n = 53], simp_all add: round_even_def,
      subst double_scaled [where n = 53], simp_all add: round_even_def)

lemma ceilings_le_one: "double (49 / 50) \<le> 1" "double (19 / 20) \<le> 1" "double (23 / 25) \<le> 1"
  by (simp_all add: double_le_one)

lemma ceilings_gt:
  "3 / 4 < double (49 / 50)" "7 / 10 < double (19 / 20)" "7 / 10 < double (23 / 25)"
proof -
  have "double (7 / 8) = 7 / 8" using double_dyadic [of 7 3] by simp
  then have "7 / 8 \<le> double x" if "7 / 8 \<le> x" for x
    using double_mono [OF that] by simp
  from this [of "49 / 50"] this [of "19 / 20"] this [of "23 / 25"]
  show "3 / 4 < double (49 / 50)" "7 / 10 < double (19 / 20)" "7 / 10 < double (23 / 25)"
    by simp_all
qed

text \<open>A double exceeds \<^verbatim>\<open>0.7\<close> exactly when it exceeds \<open>7 / 10\<close>.\<close>

lemma threshold_double: "double c = c \<Longrightarrow> double (7 / 10) < c \<longleftrightarrow> 7 / 10 < c"
proof
  assume "double c = c" and "double (7 / 10) < c"
  then have "\<not> c \<le> 7 / 10"
    using double_mono [of c "7 / 10"] by auto
  then show "7 / 10 < c" by simp
next
  assume "7 / 10 < c"
  moreover have "double (7 / 10) \<le> 7 / 10" by (simp add: literals)
  ultimately show "double (7 / 10) < c" by simp
qed

lemma full_confidence:
  "double (double (1 / 2 + double (3 / 10)) + double (1 / 5)) = 1"
  "double (double (2 * double (2 / 5)) + double (1 / 5)) = 1"
proof -
  have a: "double (1 / 2 + double (3 / 10)) = 3602879701896397 / 2 ^ 52"
    unfolding literals by (subst double_scaled [where n = 53]) (simp_all add: round_even_def)
  show "double (double (1 / 2 + double (3 / 10)) + double (1 / 5)) = 1"
    unfolding a unfolding literals
    by (subst double_scaled [where n = 52]) (simp_all add: round_even_def)
  have b: "double (2 * double (2 / 5)) = 3602879701896397 / 2 ^ 52"
    unfolding literals by (subst double_scaled [where n = 53]) (simp_all add: round_even_def)
  show "double (double (2 * double (2 / 5)) + double (1 / 5)) = 1"
    unfolding b unfolding literals
    by (subst double_scaled [where n = 52]) (simp_all add: round_even_def)
qed

lemma val_255: "val 255 = 255"
  by (simp add: val_def)

lemma fire_confidence_255: "fire_confidence 255 255 255 = double 0.98"
proof -
  have "min (double (255 / 200)) 1 = 1" "min (double (255 / 120)) 1 = 1"
    "min (double (255 / 80)) 1 = 1"
    by (simp_all add: double_ge_one min_absorb2)
  then show ?thesis
    unfolding fire_confidence_def
    by (simp add: double_idem full_confidence ceilings_le_one min_absorb2)
qed

lemma baby_confidence_255: "baby_confidence 255 (3 * 255) 255 = double 0.92"
proof -
  have "min (double (255 / 150)) 1 = 1" "min (double (3 * 255 / 200)) 1 = 1"
    "min (double (255 / 70)) 1 = 1"
    by (simp_all add: double_ge_one min_absorb2)
  then show ?thesis
    unfolding baby_confidence_def
    by (simp add: double_idem full_confidence ceilings_le_one min_absorb2)
qed

lemma flat_terms:
  "double (510 * double (3 / 10)) = 153" "double (510 * double (2 / 5)) = 204"
  "double (200 * double (3 / 10)) = 60" "double (200 * double (2 / 5)) = 80"
  unfolding literals
  by (subst double_scaled [where n = 45], simp_all add: round_even_def)
     (subst double_scaled [where n = 45], simp_all add: round_even_def,
      subst double_scaled [where n = 47], simp_all add: round_even_def,
      subst double_scaled [where n = 46], simp_all add: round_even_def)

lemma doorbell_score_flat:
  "val b > 65 \<Longrightarrow>
   doorbell_score (replicate 8192 b) 48000 =
     double (double (double (double (val b + val b) * double 0.3)
                     + double (double (val b + val b) * double 0.4))
             + double (double (val b + val b) * double 0.3))"
  by (simp add: doorbell_score_def active_ranges_constant)
     (simp add: ranges_def range_constant_48k double_idem)

lemma doorbell_flat:
  assumes "val b > 65"
  shows "detectDoorbell en (replicate 8192 b) 48000 =
     (if doorbell en \<and> 180 < doorbell_score (replicate 8192 b) 48000
      then Some \<lparr> type = Doorbell,
                  confidence = min (double (doorbell_score (replicate 8192 b) 48000 / 350)) (double 0.95),
                  frequency = 44625 / 128, amplitude = val b \<rparr>
      else None)"
proof -
  have pk: "map (range_peak (replicate 8192 b) 48000) ranges = replicate 3 (val b)"
    by (simp add: ranges_def range_constant_48k numeral_3_eq_3)
  have amp: "band_peak (map (range_peak (replicate 8192 b) 48000) ranges) = val b"
    unfolding pk by (rule band_peak_replicate) simp
  have dom: "doorbell_frequency (replicate 8192 b) 48000 = 44625 / 128"
    using assms
    by (simp add: doorbell_frequency_def dominant_range_def active_ranges_constant amp)
       (simp add: ranges_def range_constant_48k range_freq_constant_48k)
  have len: "length ranges = 3"
    by (simp add: ranges_def)
  show ?thesis
    using assms
    by (simp add: detectDoorbell_eq active_ranges_constant amp dom len)
qed

lemma doorbell_scan_flat:
  "weightedScore (doorbell_scan (replicate 8192 b) 48000) = doorbell_score (replicate 8192 b) 48000"
  "activeRanges (doorbell_scan (replicate 8192 b) 48000) = (if val b > 65 then 3 else 0)"
  by (simp_all add: doorbell_scan_eq active_ranges_constant ranges_def)

lemma val_100: "val 100 = 100"
  by (simp add: val_def)

lemma doorbell_score_values:
  "doorbell_score saturated 48000 = 510" "doorbell_score (replicate 8192 100) 48000 = 200"
  by (simp_all add: saturated_def doorbell_score_flat val_255 val_100 double_numeral flat_terms)

lemma saturated_candidates:
  "detectFireAlarm all_enabled saturated 48000 =
     Some \<lparr> type = Fire, confidence = double 0.98, frequency = 3100, amplitude = 255 \<rparr>"
  "detectDoorbell all_enabled saturated 48000 =
     Some \<lparr> type = Doorbell, confidence = double 0.95, frequency = 44625 / 128, amplitude = 255 \<rparr>"
  "detectBabyCrying all_enabled saturated 48000 =
     Some \<lparr> type = Baby, confidence = double 0.92, frequency = 31875 / 128, amplitude = 255 \<rparr>"
proof -
  show "detectFireAlarm all_enabled saturated 48000 =
     Some \<lparr> type = Fire, confidence = double 0.98, frequency = 3100, amplitude = 255 \<rparr>"
    by (simp add: saturated_def fire_constant all_enabled_def val_255 fire_confidence_255)
  have "min (double (510 / 350)) (double 0.95) = double 0.95"
    using ceilings_le_one(2) double_ge_one [of "510 / 350"] by simp
  then show "detectDoorbell all_enabled saturated 48000 =
     Some \<lparr> type = Doorbell, confidence = double 0.95, frequency = 44625 / 128, amplitude = 255 \<rparr>"
    using doorbell_flat [of 255 all_enabled] doorbell_score_values(1)
    by (simp add: saturated_def all_enabled_def val_255)
  show "detectBabyCrying all_enabled saturated 48000 =
     Some \<lparr> type = Baby, confidence = double 0.92, frequency = 31875 / 128, amplitude = 255 \<rparr>"
    using baby_confidence_255
    by (simp add: saturated_def baby_constant all_enabled_def val_255)
qed

lemma analyzeAudio_subset:
  assumes "x \<in> set (snd (analyzeAudio p inp h))"
  shows "\<exists>sr. x \<in> set (detections (enabledSounds p) (frequencyData inp) sr)"
proof (cases "analyserRef h = None \<or> audioContextRef h = None")
  case True
  then show ?thesis using assms by (simp add: analyzeAudio_skip)
next
  case False
  then obtain a ctx where "analyserRef h = Some a" "audioContextRef h = Some ctx"
    by auto
  then show ?thesis using assms by (auto simp: analyzeAudio_eq)
qed

lemma fire_confidence_le: "fire_confidence a b c \<le> double 0.98"
  unfolding fire_confidence_def by (rule min.cobounded2)

lemma baby_confidence_le: "baby_confidence a b c \<le> double 0.92"
  unfolding baby_confidence_def by (rule min.cobounded2)

lemma doorbell_confidence_le: "min x (double 0.95) \<le> double 0.95"
  by (rule min.cobounded2)

section \<open>Confidence ceilings\<close>

lemma ceilings_le:
  "double 0.98 \<le> 0.98" "double 0.95 \<le> 0.95" "double 0.92 \<le> 0.92 + 1 / 2 ^ 54"
  by (subst double_scaled [where n = 53], simp_all add: round_even_def)
     (subst double_scaled [where n = 53], simp_all add: round_even_def,
      subst double_scaled [where n = 53], simp_all add: round_even_def)

text \<open>
  C3: no candidate of a classifier, and no detection handed on by a cycle, reports a
  confidence above its kind's ceiling, whatever the spectrum: the ceilings are the
  numbers that \<^verbatim>\<open>0.98\<close> for Fire, \<^verbatim>\<open>0.95\<close> for Doorbell and \<^verbatim>\<open>0.92\<close> for BabyCry denote.
  The first two lie below 0.98 and 0.95; the third lies above 0.92 by less than
  \<open>2 ^ -54\<close>.
\<close>

theorem confidence_ceiling:
  "(\<forall>c. detectFireAlarm en fd sr = Some c \<longrightarrow> confidence c \<le> double 0.98 \<and> confidence c \<le> 0.98)
   \<and> (\<forall>c. detectDoorbell en fd sr = Some c \<longrightarrow> confidence c \<le> double 0.95 \<and> confidence c \<le> 0.95)
   \<and> (\<forall>c. detectBabyCrying en fd sr = Some c \<longrightarrow>
          confidence c \<le> double 0.92 \<and> confidence c \<le> 0.92 + 1 / 2 ^ 54)
   \<and> (\<forall>d \<in> set (snd (analyzeAudio p inp h)). confidence d \<le> maxConfidence (type d))"
proof -
  have f: "confidence c \<le> double 0.98 \<and> type c = Fire" if "detectFireAlarm en fd sr = Some c" for en fd sr c
    using that fire_confidence_le by (auto simp: detectFireAlarm_eq split: if_splits)
  have d: "confidence c \<le> double 0.95 \<and> type c = Doorbell" if "detectDoorbell en fd sr = Some c" for en fd sr c
    using that doorbell_confidence_le
    by (auto simp: detectDoorbell_eq simp del: min_less_iff_conj min.bounded_iff split: if_splits)
  have b: "confidence c \<le> double 0.92 \<and> type c = Baby" if "detectBabyCrying en fd sr = Some c" for en fd sr c
    using that baby_confidence_le by (auto simp: detectBabyCrying_eq Let_def split: if_splits)
  have "confidence x \<le> maxConfidence (type x)" if "x \<in> set (snd (analyzeAudio p inp h))" for x
  proof -
    from analyzeAudio_subset [OF that] obtain r where
      "x \<in> set (detections (enabledSounds p) (frequencyData inp) r)"
      by auto
    then show ?thesis
      using f d b by (auto simp: detections_member maxConfidence_def)
  qed
  moreover have "confidence c \<le> 0.98" if "detectFireAlarm en fd sr = Some c" for c
    using f [OF that] ceilings_le(1) by linarith
  moreover have "confidence c \<le> 0.95" if "detectDoorbell en fd sr = Some c" for c
    using d [OF that] ceilings_le(2) by linarith
  moreover have "confidence c \<le> 0.92 + 1 / 2 ^ 54" if "detectBabyCrying en fd sr = Some c" for c
    using b [OF that] ceilings_le(3) by linarith
  ultimately show ?thesis using f d b by blast
qed

lemma saturated_cycle:
  "snd (analyzeAudio listening_props (saturated_input 1700000000000) listening_hook) =
     [\<lparr> type = Fire, confidence = double 0.98, frequency = 3100, amplitude = 255 \<rparr>,
      \<lparr> type = Doorbell, confidence = double 0.95, frequency = 44625 / 128, amplitude = 255 \<rparr>,
      \<lparr> type = Baby, confidence = double 0.92, frequency = 31875 / 128, amplitude = 255 \<rparr>]"
  using ceilings_gt
  by (simp add: analyzeAudio_eq [of _ "\<lparr> fftSize = 16384 \<rparr>" "\<lparr> sampleRate = 48000, state = Running \<rparr>"]
        listening_hook_def listening_props_def saturated_input_def initial_hook_def
        detections_cases saturated_candidates passes_def confidenceThreshold_def cooldownPeriod_def
        lastDetection_def)

theorem confidence_ceiling_witness:
  "detectFireAlarm all_enabled saturated 48000 =
     Some \<lparr> type = Fire, confidence = double 0.98, frequency = 3100, amplitude = 255 \<rparr>
   \<and> detectDoorbell all_enabled saturated 48000 =
     Some \<lparr> type = Doorbell, confidence = double 0.95, frequency = 44625 / 128, amplitude = 255 \<rparr>
   \<and> detectBabyCrying all_enabled saturated 48000 =
     Some \<lparr> type = Baby, confidence = double 0.92, frequency = 31875 / 128, amplitude = 255 \<rparr>
   \<and> \<lparr> type = Baby, confidence = double 0.92, frequency = 31875 / 128, amplitude = 255 \<rparr>
       \<in> set (snd (analyzeAudio listening_props (saturated_input 1700000000000) listening_hook))
   \<and> confidence \<lparr> type = Fire, confidence = double 0.98, frequency = 3100, amplitude = 255 \<rparr> \<le> 0.98
   \<and> confidence \<lparr> type = Doorbell, confidence = double 0.95, frequency = 44625 / 128, amplitude = 255 \<rparr> \<le> 0.95
   \<and> confidence \<lparr> type = Baby, confidence = double 0.92, frequency = 31875 / 128, amplitude = 255 \<rparr>
       \<le> 0.92 + 1 / 2 ^ 54
   \<and> confidence \<lparr> type = Baby, confidence = double 0.92, frequency = 31875 / 128, amplitude = 255 \<rparr>
       \<le> maxConfidence (type \<lparr> type = Baby, confidence = double 0.92, frequency = 31875 / 128, amplitude = 255 \<rparr>)"
  using confidence_ceiling [of all_enabled saturated 48000 listening_props
      "saturated_input 1700000000000" listening_hook]
  by (simp add: saturated_candidates saturated_cycle)

section \<open>The event gate over cycles\<close>

lemma analyzeAudio_refs:
  "analyserRef (fst (analyzeAudio p inp h)) = analyserRef h"
  "audioContextRef (fst (analyzeAudio p inp h)) = audioContextRef h"
  "error (fst (analyzeAudio p inp h)) = error h"
  by (auto simp: analyzeAudio_def Let_def split: option.splits prod.splits)

lemma kind_events:
  assumes "analyserRef h = Some a" and "audioContextRef h = Some ctx"
  shows "filter (\<lambda>d. type d = Fire) (snd (analyzeAudio p inp h)) =
           (case detectFireAlarm (enabledSounds p) (frequencyData inp) (sampleRate ctx) of
              Some c \<Rightarrow> if passes (lastDetectionRef h) (now inp) c then [c] else []
            | None \<Rightarrow> [])"
    and "filter (\<lambda>d. type d = Doorbell) (snd (analyzeAudio p inp h)) =
           (case detectDoorbell (enabledSounds p) (frequencyData inp) (sampleRate ctx) of
              Some c \<Rightarrow> if passes (lastDetectionRef h) (now inp) c then [c] else []
            | None \<Rightarrow> [])"
    and "filter (\<lambda>d. type d = Baby) (snd (analyzeAudio p inp h)) =
           (case detectBabyCrying (enabledSounds p) (frequencyData inp) (sampleRate ctx) of
              Some c \<Rightarrow> if passes (lastDetectionRef h) (now inp) c then [c] else []
            | None \<Rightarrow> [])"
  by (auto simp: analyzeAudio_eq [OF assms] detections_cases detect_types split: option.splits)

lemma gate_after:
  assumes "analyserRef h = Some a" and "audioContextRef h = Some ctx"
  shows "lastDetectionRef (fst (analyzeAudio p inp h)) k =
           (if \<exists>d \<in> set (snd (analyzeAudio p inp h)). type d = k then Some (now inp)
            else lastDetectionRef h k)"
  by (auto simp: analyzeAudio_eq [OF assms])

lemma frame_loop_two:
  assumes "analyserRef h \<noteq> None" and "audioContextRef h \<noteq> None" and "isListening p"
  shows "snd (frame_loop p [i1, i2] h) =
           snd (analyzeAudio p i1 h) @ snd (analyzeAudio p i2 (fst (analyzeAudio p i1 h)))"
  using assms by (simp add: frame_loop.simps analyzeAudio_refs split: prod.splits)

lemma two_fire_cycles:
  assumes refs: "analyserRef h = Some a" "audioContextRef h = Some ctx" and on: "isListening p"
    and c1: "detectFireAlarm (enabledSounds p) (frequencyData i1) (sampleRate ctx) = Some c1"
         "confidence c1 > 0.75"
    and c2: "detectFireAlarm (enabledSounds p) (frequencyData i2) (sampleRate ctx) = Some c2"
         "confidence c2 > 0.75"
    and armed: "now i1 - lastDetection (lastDetectionRef h) Fire > 3000"
  shows "filter (\<lambda>d. type d = Fire) (snd (frame_loop p [i1, i2] h)) =
           (if now i2 - now i1 > 3000 then [c1, c2] else [c1])"
proof -
  let ?h1 = "fst (analyzeAudio p i1 h)"
  have t: "type c1 = Fire" "type c2 = Fire"
    using c1 c2 by (auto dest: detect_types)
  have p1: "passes (lastDetectionRef h) (now i1) c1"
    using c1 armed t by (simp add: passes_def confidenceThreshold_def cooldownPeriod_def)
  have e1: "filter (\<lambda>d. type d = Fire) (snd (analyzeAudio p i1 h)) = [c1]"
    using p1 c1 by (simp add: kind_events [OF refs])
  then have "c1 \<in> set (filter (\<lambda>d. type d = Fire) (snd (analyzeAudio p i1 h)))"
    by simp
  then have "c1 \<in> set (snd (analyzeAudio p i1 h))"
    by (simp only: set_filter mem_Collect_eq)
  then have last1: "lastDetectionRef ?h1 Fire = Some (now i1)"
    using t by (auto simp: gate_after [OF refs])
  have refs1: "analyserRef ?h1 = Some a" "audioContextRef ?h1 = Some ctx"
    using refs by (simp_all add: analyzeAudio_refs)
  have p2: "passes (lastDetectionRef ?h1) (now i2) c2 \<longleftrightarrow> now i2 - now i1 > 3000"
    using c2 t last1 by (simp add: passes_def confidenceThreshold_def cooldownPeriod_def lastDetection_def)
  have e2: "filter (\<lambda>d. type d = Fire) (snd (analyzeAudio p i2 ?h1)) =
              (if now i2 - now i1 > 3000 then [c2] else [])"
    using p2 c2 by (simp add: kind_events [OF refs1])
  have "snd (frame_loop p [i1, i2] h) = snd (analyzeAudio p i1 h) @ snd (analyzeAudio p i2 ?h1)"
    using refs on by (intro frame_loop_two) simp_all
  then show ?thesis
    using e1 e2 by (simp only: filter_append) simp
qed

text \<open>
  C1: the event gate emits a detection exactly when its confidence exceeds the
  threshold of its kind (0.75 for Fire, 0.70 for Doorbell and BabyCry) and the time
  since the last emission of its kind exceeds the cooldown (3000 ms for Fire, 8000 ms
  for the others); on emission the time of the kind is set to now, otherwise nothing
  changes. A cycle hands on exactly the candidates that clear both tests. Of two Fire
  candidates over the threshold, the first of which is emitted, the second is dropped
  when it comes 1000 ms later and emitted when it comes 3500 ms later.
\<close>

theorem event_gate:
  "process_detection t (m, out) d =
     (if confidence d > confidenceThreshold (type d)
         \<and> t - lastDetection m (type d) > cooldownPeriod (type d)
      then (m(type d \<mapsto> t), out @ [d]) else (m, out))
   \<and> confidenceThreshold Fire = 0.75 \<and> confidenceThreshold Doorbell = 0.70
   \<and> confidenceThreshold Baby = 0.70
   \<and> cooldownPeriod Fire = 3000 \<and> cooldownPeriod Doorbell = 8000 \<and> cooldownPeriod Baby = 8000
   \<and> (analyserRef h = Some a \<and> audioContextRef h = Some ctx \<longrightarrow>
        snd (analyzeAudio p inp h) =
          filter (\<lambda>d. confidence d > confidenceThreshold (type d)
                     \<and> now inp - lastDetection (lastDetectionRef h) (type d) > cooldownPeriod (type d))
            (detections (enabledSounds p) (frequencyData inp) (sampleRate ctx))
        \<and> (\<forall>k. lastDetectionRef (fst (analyzeAudio p inp h)) k =
                  (if \<exists>d \<in> set (snd (analyzeAudio p inp h)). type d = k then Some (now inp)
                   else lastDetectionRef h k)))
   \<and> (analyserRef h = Some a \<and> audioContextRef h = Some ctx \<and> isListening p
        \<and> detectFireAlarm (enabledSounds p) (frequencyData i1) (sampleRate ctx) = Some c1
        \<and> confidence c1 > 0.75
        \<and> detectFireAlarm (enabledSounds p) (frequencyData i2) (sampleRate ctx) = Some c2
        \<and> confidence c2 > 0.75
        \<and> now i1 - lastDetection (lastDetectionRef h) Fire > 3000 \<longrightarrow>
        (now i2 = now i1 + 1000 \<longrightarrow>
           filter (\<lambda>d. type d = Fire) (snd (frame_loop p [i1, i2] h)) = [c1])
        \<and> (now i2 = now i1 + 3500 \<longrightarrow>
           filter (\<lambda>d. type d = Fire) (snd (frame_loop p [i1, i2] h)) = [c1, c2]))"
proof (intro conjI impI)
  show "process_detection t (m, out) d =
     (if confidence d > confidenceThreshold (type d)
         \<and> t - lastDetection m (type d) > cooldownPeriod (type d)
      then (m(type d \<mapsto> t), out @ [d]) else (m, out))"
    by (simp add: process_detection_eq passes_def)
next
  assume "analyserRef h = Some a \<and> audioContextRef h = Some ctx"
  then have refs: "analyserRef h = Some a" "audioContextRef h = Some ctx" by simp_all
  show "snd (analyzeAudio p inp h) =
          filter (\<lambda>d. confidence d > confidenceThreshold (type d)
                     \<and> now inp - lastDetection (lastDetectionRef h) (type d) > cooldownPeriod (type d))
            (detections (enabledSounds p) (frequencyData inp) (sampleRate ctx))"
    by (simp add: analyzeAudio_eq [OF refs] passes_def [abs_def])
  show "\<forall>k. lastDetectionRef (fst (analyzeAudio p inp h)) k =
                  (if \<exists>d \<in> set (snd (analyzeAudio p inp h)). type d = k then Some (now inp)
                   else lastDetectionRef h k)"
    using gate_after [OF refs] by blast
next
  assume A: "analyserRef h = Some a \<and> audioContextRef h = Some ctx \<and> isListening p
        \<and> detectFireAlarm (enabledSounds p) (frequencyData i1) (sampleRate ctx) = Some c1
        \<and> confidence c1 > 0.75
        \<and> detectFireAlarm (enabledSounds p) (frequencyData i2) (sampleRate ctx) = Some c2
        \<and> confidence c2 > 0.75
        \<and> now i1 - lastDetection (lastDetectionRef h) Fire > 3000"
  note two = two_fire_cycles [of h a ctx p i1 c1 i2 c2]
  {
    assume "now i2 = now i1 + 1000"
    then show "filter (\<lambda>d. type d = Fire) (snd (frame_loop p [i1, i2] h)) = [c1]"
      using A two by simp
  }
  {
    assume "now i2 = now i1 + 3500"
    then show "filter (\<lambda>d. type d = Fire) (snd (frame_loop p [i1, i2] h)) = [c1, c2]"
      using A two by simp
  }
qed (simp_all add: confidenceThreshold_def cooldownPeriod_def)


theorem event_gate_witness:
  "filter (\<lambda>d. type d = Fire)
     (snd (frame_loop listening_props [saturated_input 1700000000000, saturated_input 1700000001000]
             listening_hook)) =
     [\<lparr> type = Fire, confidence = double 0.98, frequency = 3100, amplitude = 255 \<rparr>]
   \<and> filter (\<lambda>d. type d = Fire)
     (snd (frame_loop listening_props [saturated_input 1700000000000, saturated_input 1700000003500]
             listening_hook)) =
     [\<lparr> type = Fire, confidence = double 0.98, frequency = 3100, amplitude = 255 \<rparr>,
      \<lparr> type = Fire, confidence = double 0.98, frequency = 3100, amplitude = 255 \<rparr>]
   \<and> lastDetectionRef (fst (analyzeAudio listening_props (saturated_input 1700000000000) listening_hook)) Fire
       = Some 1700000000000"
proof -
  let ?c = "\<lparr> type = Fire, confidence = double 0.98, frequency = 3100, amplitude = 255 \<rparr>"
  let ?a = "\<lparr> fftSize = 16384 \<rparr>"
  let ?ctx = "\<lparr> sampleRate = 48000, state = Running \<rparr>"
  have refs: "analyserRef listening_hook = Some ?a" "audioContextRef listening_hook = Some ?ctx"
    "lastDetectionRef listening_hook = Map.empty"
    by (simp_all add: listening_hook_def initial_hook_def)
  have inp: "frequencyData (saturated_input t) = saturated" "now (saturated_input t) = t" for t
    by (simp_all add: saturated_input_def)
  have pr: "isListening listening_props" "enabledSounds listening_props = all_enabled"
    by (simp_all add: listening_props_def)
  have mem: "?c \<in> set (snd (analyzeAudio listening_props (saturated_input 1700000000000) listening_hook))"
    by (simp add: saturated_cycle)
  let ?i1 = "saturated_input 1700000000000"
  have prem: "analyserRef listening_hook = Some ?a \<and> audioContextRef listening_hook = Some ?ctx
        \<and> isListening listening_props
        \<and> detectFireAlarm (enabledSounds listening_props) (frequencyData ?i1) (sampleRate ?ctx) = Some ?c
        \<and> confidence ?c > 0.75
        \<and> detectFireAlarm (enabledSounds listening_props) (frequencyData (saturated_input t)) (sampleRate ?ctx) = Some ?c
        \<and> confidence ?c > 0.75
        \<and> now ?i1 - lastDetection (lastDetectionRef listening_hook) Fire > 3000" for t
    using ceilings_gt(1) by (simp add: refs inp pr saturated_candidates lastDetection_def)
  have t1: "now (saturated_input 1700000001000) = now ?i1 + 1000"
    and t2: "now (saturated_input 1700000003500) = now ?i1 + 3500"
    by (simp_all add: inp)
  have "filter (\<lambda>d. type d = Fire)
          (snd (frame_loop listening_props [?i1, saturated_input 1700000001000] listening_hook)) = [?c]"
    using event_gate [where h = listening_hook and a = ?a and ctx = ?ctx and p = listening_props
      and ?i1.0 = ?i1 and ?i2.0 = "saturated_input 1700000001000" and ?c1.0 = ?c and ?c2.0 = ?c]
      prem [of 1700000001000] t1
    by blast
  moreover have "filter (\<lambda>d. type d = Fire)
          (snd (frame_loop listening_props [?i1, saturated_input 1700000003500] listening_hook)) = [?c, ?c]"
    using event_gate [where h = listening_hook and a = ?a and ctx = ?ctx and p = listening_props
      and ?i1.0 = ?i1 and ?i2.0 = "saturated_input 1700000003500" and ?c1.0 = ?c and ?c2.0 = ?c]
      prem [of 1700000003500] t2
    by blast
  moreover have "lastDetectionRef (fst (analyzeAudio listening_props ?i1 listening_hook)) Fire
       = Some 1700000000000"
    using mem by (auto simp: gate_after [OF refs(1,2)] inp)
  ultimately show ?thesis by simp
qed

section \<open>Spectra of three tones\<close>

lemma tones_length: "length (tones a b c) = 8192"
  by (simp add: tones_def)

lemma band_values_segment:
  assumes "lo = int (length xs)" and "hi = lo + int k - 1"
  shows "band_values (xs @ replicate k b @ ys) lo hi = replicate k (val b)"
proof -
  have "\<forall>i \<in> set [lo..hi]. val ((xs @ replicate k b @ ys) ! nat i) = val b"
    using assms by (auto simp: nth_append)
  then have "map (\<lambda>i. val ((xs @ replicate k b @ ys) ! nat i)) [lo..hi] = map (\<lambda>i. val b) [lo..hi]"
    by (intro map_cong) auto
  moreover have "length [lo..hi] = k"
    using assms by simp
  ultimately show ?thesis
    by (simp add: band_values_def map_replicate_const)
qed

lemma tones_values:
  "range_values (tones a b c) 48000 \<lparr> minHz = 350, maxHz = 550, \<dots> = x \<rparr> = replicate 70 (val a)"
  "range_values (tones a b c) 48000 \<lparr> minHz = 700, maxHz = 1000, \<dots> = x \<rparr> = replicate 105 (val b)"
  "range_values (tones a b c) 48000 \<lparr> minHz = 1200, maxHz = 1600, \<dots> = x \<rparr> = replicate 139 (val c)"
proof -
  have 1: "tones a b c = replicate 119 0 @ replicate 70 a
                          @ (replicate 49 0 @ replicate 105 b @ replicate 66 0 @ replicate 139 c
                             @ replicate 7644 0)"
    and 2: "tones a b c = (replicate 119 0 @ replicate 70 a @ replicate 49 0) @ replicate 105 b
                          @ (replicate 66 0 @ replicate 139 c @ replicate 7644 0)"
    and 3: "tones a b c = (replicate 119 0 @ replicate 70 a @ replicate 49 0 @ replicate 105 b
                           @ replicate 66 0) @ replicate 139 c @ replicate 7644 0"
    by (simp_all add: tones_def)
  show "range_values (tones a b c) 48000 \<lparr> minHz = 350, maxHz = 550, \<dots> = x \<rparr> = replicate 70 (val a)"
    unfolding range_values_def bins_48k [OF tones_length]
    by (subst 1, rule band_values_segment) simp_all
  show "range_values (tones a b c) 48000 \<lparr> minHz = 700, maxHz = 1000, \<dots> = x \<rparr> = replicate 105 (val b)"
    unfolding range_values_def bins_48k [OF tones_length]
    by (subst 2, rule band_values_segment) simp_all
  show "range_values (tones a b c) 48000 \<lparr> minHz = 1200, maxHz = 1600, \<dots> = x \<rparr> = replicate 139 (val c)"
    unfolding range_values_def bins_48k [OF tones_length]
    by (subst 3, rule band_values_segment) simp_all
qed

lemma tones_ranges:
  "range_peak (tones a b c) 48000 \<lparr> minHz = 350, maxHz = 550, \<dots> = x \<rparr> = val a"
  "range_mean (tones a b c) 48000 \<lparr> minHz = 350, maxHz = 550, \<dots> = x \<rparr> = val a"
  "range_peak (tones a b c) 48000 \<lparr> minHz = 700, maxHz = 1000, \<dots> = x \<rparr> = val b"
  "range_mean (tones a b c) 48000 \<lparr> minHz = 700, maxHz = 1000, \<dots> = x \<rparr> = val b"
  "range_peak (tones a b c) 48000 \<lparr> minHz = 1200, maxHz = 1600, \<dots> = x \<rparr> = val c"
  "range_mean (tones a b c) 48000 \<lparr> minHz = 1200, maxHz = 1600, \<dots> = x \<rparr> = val c"
  by (simp_all add: range_peak_def range_mean_def tones_values band_peak_replicate band_mean_replicate)

lemma val_tones:
  "val 0 = 0" "val 68 = 68" "val 111 = 111" "val 84 = 84" "val 79 = 79" "val 247 = 247"
  by (simp_all add: val_def)

lemma chime_terms:
  "double (136 * double (3 / 10)) = 2871044762448691 / 2 ^ 46"
  "double (222 * double (2 / 5)) = 1562186120744141 / 2 ^ 44"
  "double (168 * double (3 / 10)) = 7093169413108531 / 2 ^ 47"
  "double (2871044762448691 / 2 ^ 46 + 1562186120744141 / 2 ^ 44) = 1139973655678157 / 2 ^ 43"
  "double (1139973655678157 / 2 ^ 43 + 7093169413108531 / 2 ^ 47) = 180 + 1 / 2 ^ 45"
  unfolding literals
  by (subst double_scaled [where n = 47], simp_all add: round_even_def)
     (subst double_scaled [where n = 46], simp_all add: round_even_def,
      subst double_scaled [where n = 47], simp_all add: round_even_def,
      subst double_scaled [where n = 45], simp_all add: round_even_def,
      subst double_scaled [where n = 45], simp_all add: round_even_def)

lemma chime_scan:
  "activeRanges (doorbell_scan chime 48000) = 3"
  "weightedScore (doorbell_scan chime 48000) = 180 + 1 / 2 ^ 45"
proof -
  have act: "active_ranges chime 48000 = ranges"
    by (simp add: active_ranges_def chime_def ranges_def active_def tones_ranges val_tones)
  show "activeRanges (doorbell_scan chime 48000) = 3"
    by (simp add: doorbell_scan_eq act) (simp add: ranges_def)
  have "doorbell_score chime 48000 =
          double (double (double (136 * double (3 / 10)) + double (222 * double (2 / 5)))
                  + double (168 * double (3 / 10)))"
    unfolding doorbell_score_def act
    by (simp add: ranges_def chime_def tones_ranges val_tones double_numeral double_idem)
  also have "\<dots> = 180 + 1 / 2 ^ 45"
    by (simp only: chime_terms)
  finally show "weightedScore (doorbell_scan chime 48000) = 180 + 1 / 2 ^ 45"
    by (simp only: doorbell_scan_eq)
qed

lemma two_tone_terms:
  "double (158 * double (3 / 10)) = 6670956948042547 / 2 ^ 47"
  "double (494 * double (2 / 5)) = 1738107981188301 / 2 ^ 43"
  "double (6670956948042547 / 2 ^ 47 + 1738107981188301 / 2 ^ 43) = 245 + 1 / 2 ^ 45"
  "double ((245 + 1 / 2 ^ 45) / 350) = 6305039478318695 / 2 ^ 53"
  unfolding literals
  by (subst double_scaled [where n = 47], simp_all add: round_even_def)
     (subst double_scaled [where n = 45], simp_all add: round_even_def,
      subst double_scaled [where n = 45], simp_all add: round_even_def,
      subst double_scaled [where n = 53], simp_all add: round_even_def)

lemma two_tone_scan:
  "activeRanges (doorbell_scan two_tone 48000) = 2"
  "weightedScore (doorbell_scan two_tone 48000) = 245 + 1 / 2 ^ 45"
proof -
  have act: "active_ranges two_tone 48000 =
               [\<lparr> minHz = 350, maxHz = 550, weight = double 0.3 \<rparr>,
                \<lparr> minHz = 700, maxHz = 1000, weight = double 0.4 \<rparr>]"
    by (simp add: active_ranges_def two_tone_def ranges_def active_def tones_ranges val_tones)
  show "activeRanges (doorbell_scan two_tone 48000) = 2"
    by (simp add: doorbell_scan_eq act)
  have "doorbell_score two_tone 48000 =
          double (double (158 * double (3 / 10)) + double (494 * double (2 / 5)))"
    unfolding doorbell_score_def act
    by (simp add: two_tone_def tones_ranges val_tones double_numeral double_idem)
  also have "\<dots> = 245 + 1 / 2 ^ 45"
    by (simp only: two_tone_terms)
  finally show "weightedScore (doorbell_scan two_tone 48000) = 245 + 1 / 2 ^ 45"
    by (simp only: doorbell_scan_eq)
qed

section \<open>Doorbell candidates below the gate\<close>

lemma doorbell_candidate_score:
  assumes "detectDoorbell en fd sr = Some c"
  shows "confidence c = min (double (weightedScore (doorbell_scan fd sr) / 350)) (double 0.95)"
    and "type c = Doorbell"
  using assms by (auto simp: detectDoorbell_def Let_def split: if_splits)

lemma doorbell_event_candidate:
  assumes "audioContextRef h = Some ctx" and "d \<in> set (snd (analyzeAudio p inp h))"
    and "type d = Doorbell"
  shows "detectDoorbell (enabledSounds p) (frequencyData inp) (sampleRate ctx) = Some d
         \<and> passes (lastDetectionRef h) (now inp) d"
proof (cases "analyserRef h")
  case None
  then show ?thesis using assms by (simp add: analyzeAudio_skip)
next
  case (Some a)
  from assms(2) have "d \<in> set (detections (enabledSounds p) (frequencyData inp) (sampleRate ctx))"
    and ps: "passes (lastDetectionRef h) (now inp) d"
    by (simp_all add: analyzeAudio_eq [OF Some assms(1)])
  then show ?thesis
    using assms(3) by (auto simp: detections_member dest: detect_types)
qed

lemma below_gate: "ws \<le> 245 \<Longrightarrow> double (ws / 350) \<le> 7 / 10"
proof -
  assume "ws \<le> 245"
  then have "ws / 350 \<le> 7 / 10" by simp
  then have "double (ws / 350) \<le> double (7 / 10)" by (rule double_mono)
  also have "\<dots> \<le> 7 / 10" by (simp add: literals)
  finally show ?thesis .
qed

text \<open>
  C10: a Doorbell detection that a cycle hands on has a weighted score above 245. A
  Doorbell candidate whose weighted score is at most 245 has confidence at most 0.70
  and fails the confidence test of the gate in every gate state; such candidates exist
  whenever at least two ranges are active and the score lies above 180. The weighted
  score is the number the classifier holds, rounded additions included: for the
  spectrum \<open>two_tone\<close>, whose terms add up to 245 in exact arithmetic, it is
  \<open>245 + 2 ^ -45\<close>, and the detection is handed on.
\<close>

theorem doorbell_gate_gap:
  "(audioContextRef h = Some ctx \<and> d \<in> set (snd (analyzeAudio p inp h)) \<and> type d = Doorbell \<longrightarrow>
      weightedScore (doorbell_scan (frequencyData inp) (sampleRate ctx)) > 245)
   \<and> (detectDoorbell en fd sr = Some c \<and> weightedScore (doorbell_scan fd sr) \<le> 245 \<longrightarrow>
        confidence c \<le> 0.70 \<and> process_detection t (m, out) c = (m, out))
   \<and> (doorbell en \<and> activeRanges (doorbell_scan fd sr) \<ge> 2
        \<and> 180 < weightedScore (doorbell_scan fd sr) \<and> weightedScore (doorbell_scan fd sr) \<le> 245 \<longrightarrow>
        (\<exists>c. detectDoorbell en fd sr = Some c))"
proof (intro conjI impI)
  assume A: "audioContextRef h = Some ctx \<and> d \<in> set (snd (analyzeAudio p inp h)) \<and> type d = Doorbell"
  let ?ws = "weightedScore (doorbell_scan (frequencyData inp) (sampleRate ctx))"
  from A doorbell_event_candidate [of h ctx d p inp]
  have c: "detectDoorbell (enabledSounds p) (frequencyData inp) (sampleRate ctx) = Some d"
    and ps: "passes (lastDetectionRef h) (now inp) d" by simp_all
  from ps A have "confidence d > 7 / 10"
    by (simp add: passes_def confidenceThreshold_def)
  with doorbell_candidate_score(1) [OF c] have "double (?ws / 350) > 7 / 10" by simp
  with below_gate [of ?ws] show "?ws > 245" by linarith
next
  assume B: "detectDoorbell en fd sr = Some c \<and> weightedScore (doorbell_scan fd sr) \<le> 245"
  then have conf: "confidence c = min (double (weightedScore (doorbell_scan fd sr) / 350)) (double 0.95)"
    and ty: "type c = Doorbell"
    using doorbell_candidate_score [of en fd sr c] by simp_all
  from B have "double (weightedScore (doorbell_scan fd sr) / 350) \<le> 7 / 10"
    by (intro below_gate) simp
  with conf show le: "confidence c \<le> 0.70" by simp
  then show "process_detection t (m, out) c = (m, out)"
    using ty by (simp add: process_detection_def confidenceThreshold_def)
next
  assume "doorbell en \<and> activeRanges (doorbell_scan fd sr) \<ge> 2
        \<and> 180 < weightedScore (doorbell_scan fd sr) \<and> weightedScore (doorbell_scan fd sr) \<le> 245"
  then show "\<exists>c. detectDoorbell en fd sr = Some c"
    by (simp add: detectDoorbell_def Let_def)
qed

theorem doorbell_gate_gap_witness:
  "\<lparr> type = Doorbell, confidence = double 0.95, frequency = 44625 / 128, amplitude = 255 \<rparr>
     \<in> set (snd (analyzeAudio listening_props (saturated_input 1700000000000) listening_hook))
   \<and> weightedScore (doorbell_scan saturated 48000) = 510
   \<and> weightedScore (doorbell_scan saturated 48000) > 245
   \<and> detectDoorbell all_enabled (replicate 8192 100) 48000 =
       Some \<lparr> type = Doorbell, confidence = double (4 / 7), frequency = 44625 / 128, amplitude = 100 \<rparr>
   \<and> weightedScore (doorbell_scan (replicate 8192 100) 48000) = 200
   \<and> activeRanges (doorbell_scan (replicate 8192 100) 48000) = 3
   \<and> process_detection 1700000000000 (Map.empty, [])
        \<lparr> type = Doorbell, confidence = double (4 / 7), frequency = 44625 / 128, amplitude = 100 \<rparr>
       = (Map.empty, [])
   \<and> weightedScore (doorbell_scan two_tone 48000) = 245 + 1 / 2 ^ 45
   \<and> (\<exists>c. detectDoorbell all_enabled two_tone 48000 = Some c
          \<and> confidence c = 6305039478318695 / 2 ^ 53 \<and> 0.70 < confidence c
          \<and> process_detection 1700000000000 (Map.empty, []) c
              = ([Doorbell \<mapsto> 1700000000000], [c]))"
proof -
  let ?d = "\<lparr> type = Doorbell, confidence = double 0.95, frequency = 44625 / 128, amplitude = 255 \<rparr>"
  let ?c = "\<lparr> type = Doorbell, confidence = double (4 / 7), frequency = 44625 / 128, amplitude = 100 \<rparr>"
  let ?ctx = "\<lparr> sampleRate = 48000, state = Running \<rparr>"
  let ?inp = "saturated_input 1700000000000"
  have mem: "?d \<in> set (snd (analyzeAudio listening_props ?inp listening_hook))"
    by (simp add: saturated_cycle)
  have ctx: "audioContextRef listening_hook = Some ?ctx"
    by (simp add: listening_hook_def initial_hook_def)
  have ws: "weightedScore (doorbell_scan saturated 48000) = 510"
    using doorbell_scan_flat(1) [of 255] by (simp add: saturated_def [symmetric] doorbell_score_values)
  have "min (double (200 / 350)) (double 0.95) = double (4 / 7)"
  proof -
    have "double (4 / 7) \<le> double (19 / 20)" by (intro double_mono) simp
    then show ?thesis by simp
  qed
  then have c: "detectDoorbell all_enabled (replicate 8192 100) 48000 = Some ?c"
    using doorbell_flat [of 100 all_enabled]
    by (simp add: all_enabled_def val_100 doorbell_score_values)
  have ws2: "weightedScore (doorbell_scan (replicate 8192 100) 48000) = 200"
    "activeRanges (doorbell_scan (replicate 8192 100) 48000) = 3"
    by (simp_all add: doorbell_scan_flat val_100 doorbell_score_values)
  have "weightedScore (doorbell_scan (frequencyData ?inp) (sampleRate ?ctx)) > 245"
    using doorbell_gate_gap [where h = listening_hook and ctx = ?ctx and d = ?d
        and p = listening_props and inp = ?inp] mem ctx
    by simp
  moreover have "process_detection 1700000000000 (Map.empty, []) ?c = (Map.empty, [])"
    using doorbell_gate_gap [where en = all_enabled and fd = "replicate 8192 100" and sr = 48000
        and c = ?c and t = 1700000000000 and m = Map.empty and out = "[]"] c ws2
    by simp
  moreover have "\<exists>c. detectDoorbell all_enabled two_tone 48000 = Some c
          \<and> confidence c = 6305039478318695 / 2 ^ 53 \<and> 0.70 < confidence c
          \<and> process_detection 1700000000000 (Map.empty, []) c
              = ([Doorbell \<mapsto> 1700000000000], [c])"
  proof -
    have "\<exists>c. detectDoorbell all_enabled two_tone 48000 = Some c"
      by (simp add: detectDoorbell_def Let_def all_enabled_def two_tone_scan)
    then obtain c where c: "detectDoorbell all_enabled two_tone 48000 = Some c" by blast
    have "double ((245 + 1 / 2 ^ 45) / 350) \<le> double (19 / 20)"
      by (intro double_mono) simp
    then have conf: "confidence c = 6305039478318695 / 2 ^ 53"
      unfolding doorbell_candidate_score(1) [OF c] two_tone_scan two_tone_terms by simp
    then have "process_detection 1700000000000 (Map.empty, []) c
              = ([Doorbell \<mapsto> 1700000000000], [c])"
      using doorbell_candidate_score(2) [OF c]
      by (simp add: process_detection_def confidenceThreshold_def cooldownPeriod_def lastDetection_def)
    with c conf show ?thesis by simp
  qed
  ultimately show ?thesis
    using mem ws c ws2 two_tone_scan(2) by (simp add: saturated_input_def)
qed

section \<open>The doorbell rule\<close>

text \<open>
  C6: with the doorbell kind enabled, each of the three ranges 350-550 Hz (weight
  0.3), 700-1000 Hz (weight 0.4) and 1200-1600 Hz (weight 0.3) counts as active exactly
  when its peak exceeds 65 and its mean exceeds 25; the weighted score is the sum of
  (peak + mean) * weight over the active ranges, added up in the order of the ranges;
  a candidate is produced exactly when at least two ranges are active and the score
  exceeds 180, and its confidence is min (score / 350) 0.95. Weights, products, sums
  and the quotient are doubles; the mean of a range is the double nearest to the exact
  mean of its bins (for spectra of fewer than \<open>2 ^ 44\<close> bins). For the spectrum \<open>chime\<close>,
  whose terms add up to 180 in exact arithmetic, the score is \<open>180 + 2 ^ -45\<close> and a
  candidate is produced. (The sample rate of an audio context is positive.)
\<close>

theorem doorbell_rule:
  assumes "doorbell en" and "0 < sr"
  shows "ranges = [\<lparr> minHz = 350, maxHz = 550, weight = double 0.3 \<rparr>,
                   \<lparr> minHz = 700, maxHz = 1000, weight = double 0.4 \<rparr>,
                   \<lparr> minHz = 1200, maxHz = 1600, weight = double 0.3 \<rparr>]
    \<and> activeRanges (doorbell_scan fd sr)
        = length (filter (\<lambda>r. range_peak fd sr r > 65 \<and> range_mean fd sr r > 25) ranges)
    \<and> weightedScore (doorbell_scan fd sr)
        = foldl (\<lambda>s r. double (s + double (double (range_peak fd sr r + range_mean fd sr r) * weight r)))
            0 (filter (\<lambda>r. range_peak fd sr r > 65 \<and> range_mean fd sr r > 25) ranges)
    \<and> (length fd < 2 ^ 44 \<longrightarrow>
         (\<forall>r \<in> set ranges.
            range_mean fd sr r =
              (if range_values fd sr r = [] then 0
               else double (sum_list (range_values fd sr r) / real (length (range_values fd sr r))))))
    \<and> ((\<exists>c. detectDoorbell en fd sr = Some c)
         \<longleftrightarrow> 2 \<le> activeRanges (doorbell_scan fd sr) \<and> 180 < weightedScore (doorbell_scan fd sr))
    \<and> (\<forall>c. detectDoorbell en fd sr = Some c \<longrightarrow>
          type c = Doorbell
          \<and> confidence c = min (double (weightedScore (doorbell_scan fd sr) / 350)) (double 0.95))"
proof (intro conjI allI impI ballI)
  show "ranges = [\<lparr> minHz = 350, maxHz = 550, weight = double 0.3 \<rparr>,
                   \<lparr> minHz = 700, maxHz = 1000, weight = double 0.4 \<rparr>,
                   \<lparr> minHz = 1200, maxHz = 1600, weight = double 0.3 \<rparr>]"
    by (simp add: ranges_def)
  show "activeRanges (doorbell_scan fd sr)
        = length (filter (\<lambda>r. range_peak fd sr r > 65 \<and> range_mean fd sr r > 25) ranges)"
    by (simp add: doorbell_scan_eq active_ranges_def active_def [abs_def])
  show "weightedScore (doorbell_scan fd sr)
        = foldl (\<lambda>s r. double (s + double (double (range_peak fd sr r + range_mean fd sr r) * weight r)))
            0 (filter (\<lambda>r. range_peak fd sr r > 65 \<and> range_mean fd sr r > 25) ranges)"
    by (simp add: doorbell_scan_eq doorbell_score_def active_ranges_def active_def [abs_def])
  show "(\<exists>c. detectDoorbell en fd sr = Some c)
         \<longleftrightarrow> 2 \<le> activeRanges (doorbell_scan fd sr) \<and> 180 < weightedScore (doorbell_scan fd sr)"
    using assms(1) by (simp add: detectDoorbell_def Let_def)
next
  fix r assume len: "length fd < 2 ^ 44" and r: "r \<in> set ranges"
  from r have "0 \<le> minHz r" by (auto simp: ranges_def)
  from reads_in_bounds(1,2) [OF assms(2) this, of fd] len
  show "range_mean fd sr r =
          (if range_values fd sr r = [] then 0
           else double (sum_list (range_values fd sr r) / real (length (range_values fd sr r))))"
    unfolding range_mean_def range_values_def by (intro band_mean_exact)
next
  fix c assume "detectDoorbell en fd sr = Some c"
  then show "type c = Doorbell"
    "confidence c = min (double (weightedScore (doorbell_scan fd sr) / 350)) (double 0.95)"
    using doorbell_candidate_score [of en fd sr c] by simp_all
qed


theorem doorbell_rule_witness:
  "doorbell all_enabled \<and> (0::real) < 48000
   \<and> activeRanges (doorbell_scan saturated 48000) = 3
   \<and> weightedScore (doorbell_scan saturated 48000) = 510
   \<and> detectDoorbell all_enabled saturated 48000 =
       Some \<lparr> type = Doorbell, confidence = double 0.95, frequency = 44625 / 128, amplitude = 255 \<rparr>
   \<and> length (filter (\<lambda>r. range_peak saturated 48000 r > 65 \<and> range_mean saturated 48000 r > 25) ranges) = 3
   \<and> length saturated < 2 ^ 44
   \<and> \<lparr> minHz = 700, maxHz = 1000, weight = double 0.4 \<rparr> \<in> set ranges
   \<and> range_values saturated 48000 \<lparr> minHz = 700, maxHz = 1000, weight = double 0.4 \<rparr>
       = replicate 105 255
   \<and> range_mean saturated 48000 \<lparr> minHz = 700, maxHz = 1000, weight = double 0.4 \<rparr>
       = double (sum_list (replicate 105 255) / real (length (replicate 105 (255::real))))
   \<and> activeRanges (doorbell_scan chime 48000) = 3
   \<and> weightedScore (doorbell_scan chime 48000) = 180 + 1 / 2 ^ 45
   \<and> (\<exists>c. detectDoorbell all_enabled chime 48000 = Some c)"
proof -
  let ?r = "\<lparr> minHz = 700, maxHz = 1000, weight = double 0.4 \<rparr>"
  have en: "doorbell all_enabled" and sr: "(0::real) < 48000"
    by (simp_all add: all_enabled_def)
  have ws: "weightedScore (doorbell_scan saturated 48000) = 510"
    and ar: "activeRanges (doorbell_scan saturated 48000) = 3"
    using doorbell_scan_flat [of 255]
    by (simp_all add: saturated_def [symmetric] doorbell_score_values val_255)
  have len: "length saturated < 2 ^ 44" and r: "?r \<in> set ranges"
    by (simp_all add: saturated_def ranges_def)
  have vs: "range_values saturated 48000 ?r = replicate 105 255"
    unfolding range_values_def saturated_def
    by (simp add: bins_48k band_values_replicate val_255)
  note rule = doorbell_rule [OF en sr, of saturated]
  from rule ar have fl: "length (filter (\<lambda>r. range_peak saturated 48000 r > 65
                             \<and> range_mean saturated 48000 r > 25) ranges) = 3"
    by simp
  from rule len r have "range_mean saturated 48000 ?r =
      (if range_values saturated 48000 ?r = [] then 0
       else double (sum_list (range_values saturated 48000 ?r)
                    / real (length (range_values saturated 48000 ?r))))"
    by blast
  then have m: "range_mean saturated 48000 ?r =
      double (sum_list (replicate 105 255) / real (length (replicate 105 (255::real))))"
    unfolding vs by simp
  have c: "\<exists>c. detectDoorbell all_enabled chime 48000 = Some c"
    using doorbell_rule [OF en sr, of chime] chime_scan by simp
  from en sr ar ws saturated_candidates(2) fl len r vs m chime_scan c
  show ?thesis by blast
qed

section \<open>The fire alarm bands\<close>

lemma val_0: "val 0 = 0"
  by (simp add: val_def)

lemma val_130: "val 130 = 130"
  by (simp add: val_def)

lemma band_peak_Nil: "band_peak [] = 0"
  by (simp add: band_peak_def)

lemma band_peak_Cons: "band_peak (x # xs) = max x (band_peak xs)"
proof -
  have "Max (insert 0 (insert x (set xs))) = max x (Max (insert 0 (set xs)))"
    by (subst insert_commute) simp
  then show ?thesis by (simp add: band_peak_def)
qed

lemma spec_bins_48k:
  "spec_bin 8192 48000 2950 = 1007" "spec_bin 8192 48000 3250 = 1109"
  "spec_bin 8192 48000 6085 = 2077" "spec_bin 8192 48000 6315 = 2156"
  by (simp_all add: spec_bin_def Math_round_def)

lemma low_tone_length: "length low_tone = 8192"
  by (simp add: low_tone_def)

lemma low_tone_windows:
  "band_peak (fire_fundamental low_tone 48000) = 0"
  "band_peak (fire_harmonic low_tone 48000) = 255"
  by (simp_all add: fire_fundamental_def fire_harmonic_def low_tone_length Let_def double_numeral
        fire_bins_48k)
     (simp_all add: band_values_def upto_rec1 low_tone_def nth_append val_0 val_255
        band_peak_Nil band_peak_Cons)

lemma low_tone_bands:
  "band_peak (spec_band low_tone 48000 3100 150) = 255"
  "sum_list (spec_band low_tone 48000 3100 150) / real (length (spec_band low_tone 48000 3100 150))
     = 10965 / 103"
  "band_peak (spec_band low_tone 48000 6200 115) = 255"
  by (simp_all add: spec_band_def low_tone_length spec_bins_48k)
     (simp_all add: band_values_def upto_rec1 low_tone_def nth_append val_0 val_255
        band_peak_Nil band_peak_Cons)

text \<open>
  C2: the classifier declares a tolerance of 150 Hz beside its two frequencies and
  never reads it. It looks at the 8 bins either side of the bin of 3100 Hz and at the
  6 bins either side of the bin of 6200 Hz, which at 8192 bins and 48 kHz are the bins
  1050 to 1066 (3076 Hz to 3123 Hz) and 2110 to 2122. The spectrum \<open>low_tone\<close>, with
  its energy from 2950 Hz to 3074 Hz and at 6199 Hz, satisfies the rule over the bands
  3100 Hz \<plusminus> 150 Hz and 6200 Hz \<plusminus> 115 Hz: peak 255 and mean 10965 / 103 in the first,
  peak 255 in the second. The classifier produces no candidate for it.
\<close>

theorem fire_band_missed:
  "spec_fire_rule low_tone 48000 \<and> detectFireAlarm all_enabled low_tone 48000 = None"
  by (simp add: spec_fire_rule_def low_tone_bands detectFireAlarm_eq low_tone_windows)

section \<open>The reported frequency and amplitude\<close>

lemma strong_harmonic_length: "length strong_harmonic = 8192"
  by (simp add: strong_harmonic_def)

lemma strong_harmonic_windows:
  "band_peak (fire_fundamental strong_harmonic 48000) = 130"
  "band_mean (fire_fundamental strong_harmonic 48000) = 130"
  "band_peak (fire_harmonic strong_harmonic 48000) = 255"
  by (simp_all add: fire_fundamental_def fire_harmonic_def strong_harmonic_length Let_def
        double_numeral fire_bins_48k)
     (simp_all add: band_values_def upto_rec1 strong_harmonic_def nth_append val_130 val_255
        band_peak_Nil band_peak_Cons band_mean_def running_sum_Cons running_sum_Nil double_numeral)

lemma fire_confidence_130: "fire_confidence 130 255 130 = double 0.825"
proof -
  have s: "min (double (130 / 200)) 1 = double (13 / 20)" "min (double (255 / 120)) 1 = 1"
    "min (double (130 / 80)) 1 = 1"
    by (simp_all add: double_ge_one double_le_one min_absorb1 min_absorb2)
  have a: "double (13 / 20) = 5854679515581645 / 2 ^ 53"
    by (subst double_scaled [where n = 53]) (simp_all add: round_even_def)
  have b: "double (5854679515581645 / 2 ^ 53 * (1 / 2)) = 5854679515581645 / 2 ^ 54"
    using double_dyadic [of 5854679515581645 54] by simp
  have c: "double (5854679515581645 / 2 ^ 54 + double (3 / 10)) = 5 / 8"
    unfolding literals by (subst double_scaled [where n = 53]) (simp_all add: round_even_def)
  have d: "double (5 / 8 + double (1 / 5)) = 3715469692580659 / 2 ^ 52"
    unfolding literals by (subst double_scaled [where n = 53]) (simp_all add: round_even_def)
  have e: "double (33 / 40) = 3715469692580659 / 2 ^ 52"
    by (subst double_scaled [where n = 53]) (simp_all add: round_even_def)
  have f: "double (33 / 40) \<le> double (49 / 50)"
    by (intro double_mono) simp
  have "fire_confidence 130 255 130 =
          min (double (double (double (double (13 / 20) * (1 / 2)) + double (3 / 10)) + double (1 / 5)))
            (double (49 / 50))"
    unfolding fire_confidence_def using s by (simp add: double_idem)
  also have "\<dots> = min (double (33 / 40)) (double (49 / 50))"
    unfolding a b c d e ..
  also have "\<dots> = double (33 / 40)"
    using f by simp
  finally show ?thesis by simp
qed

lemma strong_harmonic_candidate:
  "detectFireAlarm all_enabled strong_harmonic 48000 =
     Some \<lparr> type = Fire, confidence = double 0.825, frequency = 3100, amplitude = 130 \<rparr>"
  by (simp add: detectFireAlarm_eq strong_harmonic_windows all_enabled_def fire_confidence_130)

text \<open>
  C5, as stated, fails: for the spectrum \<open>strong_harmonic\<close> the fire candidate rests on
  a fundamental window of peak 130 and a harmonic window of peak 255, and it reports
  the frequency 3100 and the amplitude 130 of the fundamental, not the larger harmonic
  peak.
\<close>

theorem dominant_peak_counterexample:
  "detectFireAlarm all_enabled strong_harmonic 48000 =
     Some \<lparr> type = Fire, confidence = double 0.825, frequency = 3100, amplitude = 130 \<rparr>
   \<and> band_peak (fire_fundamental strong_harmonic 48000) = 130
   \<and> band_peak (fire_harmonic strong_harmonic 48000) = 255
   \<and> amplitude \<lparr> type = Fire, confidence = double 0.825, frequency = 3100, amplitude = 130 \<rparr>
       < band_peak (fire_harmonic strong_harmonic 48000)"
  by (simp add: strong_harmonic_candidate strong_harmonic_windows)

lemma dominant_range_Some:
  assumes "active_ranges fd sr \<noteq> []"
  shows "\<exists>r. dominant_range fd sr = Some r \<and> r \<in> set (active_ranges fd sr)
             \<and> range_peak fd sr r = band_peak (map (range_peak fd sr) (active_ranges fd sr))"
proof -
  let ?A = "active_ranges fd sr"
  let ?M = "Max (insert 0 (range_peak fd sr ` set ?A))"
  from assms obtain r0 where r0: "r0 \<in> set ?A" by (cases ?A) auto
  then have "range_peak fd sr r0 > 0"
    by (simp add: active_ranges_def active_peak_pos)
  moreover have "range_peak fd sr r0 \<le> ?M" using r0 by simp
  ultimately have "0 < ?M" by linarith
  from find_Max_Some [OF this] obtain r where "find (\<lambda>x. range_peak fd sr x = ?M) ?A = Some r"
    by auto
  moreover from this have "r \<in> set ?A \<and> range_peak fd sr r = ?M"
    by (auto simp: find_Some_iff)
  ultimately show ?thesis
    by (auto simp: dominant_range_def band_peak_def)
qed

lemma band_peak_ge: "v \<in> set vs \<Longrightarrow> v \<le> band_peak vs"
  by (simp add: band_peak_def)

text \<open>
  C5, amended: a Fire candidate reports the frequency 3100 and the peak of the
  fundamental window; a BabyCry candidate reports the peak of the 250-600 Hz range and
  the frequency of the first bin that holds it; a Doorbell candidate reports the peak
  of the active range with the largest peak (the first of them if several share it)
  and the frequency of the first bin of that range that holds it. (The sample rate of
  an audio context is positive.)
\<close>

theorem reported_peak:
  assumes "0 < sr"
  shows "(\<forall>c. detectFireAlarm en fd sr = Some c \<longrightarrow>
            frequency c = 3100 \<and> amplitude c = band_peak (fire_fundamental fd sr))
    \<and> (\<forall>c. detectBabyCrying en fd sr = Some c \<longrightarrow>
            amplitude c = range_peak fd sr \<lparr> minHz = 250, maxHz = 600 \<rparr>
            \<and> frequency c = range_peak_freq fd sr \<lparr> minHz = 250, maxHz = 600 \<rparr>)
    \<and> (\<forall>c. detectDoorbell en fd sr = Some c \<longrightarrow>
            (\<exists>r. dominant_range fd sr = Some r \<and> r \<in> set (active_ranges fd sr)
                 \<and> (\<forall>r' \<in> set (active_ranges fd sr). range_peak fd sr r' \<le> range_peak fd sr r)
                 \<and> amplitude c = range_peak fd sr r \<and> frequency c = range_peak_freq fd sr r))"
proof (intro conjI allI impI)
  fix c assume "detectFireAlarm en fd sr = Some c"
  then show "frequency c = 3100" "amplitude c = band_peak (fire_fundamental fd sr)"
    by (auto simp: detectFireAlarm_eq split: if_splits)
next
  fix c assume "detectBabyCrying en fd sr = Some c"
  then show "amplitude c = range_peak fd sr \<lparr> minHz = 250, maxHz = 600 \<rparr>"
    "frequency c = range_peak_freq fd sr \<lparr> minHz = 250, maxHz = 600 \<rparr>"
    by (auto simp: detectBabyCrying_eq Let_def split: if_splits)
next
  fix c assume c: "detectDoorbell en fd sr = Some c"
  let ?A = "active_ranges fd sr"
  from c have two: "2 \<le> length ?A"
    and amp: "amplitude c = band_peak (map (range_peak fd sr) ?A)"
    and fr: "frequency c = doorbell_frequency fd sr"
    by (auto simp: detectDoorbell_eq split: if_splits)
  from two have "?A \<noteq> []" by auto
  from dominant_range_Some [OF this] obtain r where
    r: "dominant_range fd sr = Some r" "r \<in> set ?A"
       "range_peak fd sr r = band_peak (map (range_peak fd sr) ?A)"
    by blast
  have "\<forall>r' \<in> set ?A. range_peak fd sr r' \<le> range_peak fd sr r"
    unfolding r(3) by (auto intro: band_peak_ge)
  with r amp fr
  show "\<exists>r. dominant_range fd sr = Some r \<and> r \<in> set ?A
            \<and> (\<forall>r' \<in> set ?A. range_peak fd sr r' \<le> range_peak fd sr r)
            \<and> amplitude c = range_peak fd sr r \<and> frequency c = range_peak_freq fd sr r"
    by (auto simp: doorbell_frequency_def)
qed

theorem reported_peak_witness:
  "(0::real) < 48000
   \<and> detectFireAlarm all_enabled strong_harmonic 48000 =
       Some \<lparr> type = Fire, confidence = double 0.825, frequency = 3100, amplitude = 130 \<rparr>
   \<and> band_peak (fire_fundamental strong_harmonic 48000) = 130
   \<and> detectBabyCrying all_enabled saturated 48000 =
       Some \<lparr> type = Baby, confidence = double 0.92, frequency = 31875 / 128, amplitude = 255 \<rparr>
   \<and> range_peak saturated 48000 \<lparr> minHz = 250, maxHz = 600 \<rparr> = 255
   \<and> range_peak_freq saturated 48000 \<lparr> minHz = 250, maxHz = 600 \<rparr> = 31875 / 128
   \<and> detectDoorbell all_enabled saturated 48000 =
       Some \<lparr> type = Doorbell, confidence = double 0.95, frequency = 44625 / 128, amplitude = 255 \<rparr>
   \<and> (\<exists>r. dominant_range saturated 48000 = Some r \<and> range_peak saturated 48000 r = 255
            \<and> range_peak_freq saturated 48000 r = 44625 / 128)"
proof -
  have sr: "(0::real) < 48000" by simp
  note rp = reported_peak [OF sr, of all_enabled]
  have "\<exists>r. dominant_range saturated 48000 = Some r \<and> range_peak saturated 48000 r = 255
            \<and> range_peak_freq saturated 48000 r = 44625 / 128"
    using rp [of saturated] saturated_candidates(2) by fastforce
  moreover have "range_peak saturated 48000 \<lparr> minHz = 250, maxHz = 600 \<rparr> = 255
      \<and> range_peak_freq saturated 48000 \<lparr> minHz = 250, maxHz = 600 \<rparr> = 31875 / 128"
    using rp [of saturated] saturated_candidates(3) by fastforce
  moreover have "band_peak (fire_fundamental strong_harmonic 48000) = 130"
    using rp [of strong_harmonic] strong_harmonic_candidate by fastforce
  ultimately show ?thesis
    using saturated_candidates strong_harmonic_candidate by simp
qed


section \<open>Level smoothing\<close>

text \<open>The samples, their squares and the sum of fewer than \<open>2 ^ 38\<close> squares need no rounding.\<close>

lemma sample_exact:
  "\<exists>j. \<bar>j\<bar> \<le> 128 \<and> sample b = of_int j / 128 \<and> val b - 128 = of_int j"
proof -
  obtain k where k: "k < 256" "val b = real k" using val_byte by blast
  define j where "j = int k - 128"
  have j: "\<bar>j\<bar> \<le> 128" using k(1) by (simp add: j_def)
  have v: "val b - 128 = of_int j" by (simp add: j_def k(2))
  have "double (of_int j) = of_int j"
    using j by (intro double_of_int) simp
  moreover have "double (of_int j / 2 ^ 7) = of_int j / 2 ^ 7"
    using j by (intro double_dyadic) simp_all
  ultimately have "sample b = of_int j / 128"
    by (simp add: sample_def v)
  with j v show ?thesis by blast
qed

lemma sample_eq: "sample b = (val b - 128) / 128"
  using sample_exact [of b] by auto

lemma square_exact:
  "\<exists>m \<le> 16384. sample b * sample b = real m / 2 ^ 14"
proof -
  obtain j where j: "\<bar>j\<bar> \<le> 128" "sample b = of_int j / 128" using sample_exact by blast
  have "j * j = \<bar>j\<bar> * \<bar>j\<bar>" by (simp add: abs_mult_self_eq)
  also have "\<dots> \<le> 128 * 128" using j(1) by (intro mult_mono) simp_all
  finally have le: "j * j \<le> 16384" by simp
  have ge: "0 \<le> j * j" by simp
  have "sample b * sample b = real_of_int (j * j) / 2 ^ 14"
    by (simp add: j(2))
  also have "real_of_int (j * j) = real (nat (j * j))"
    using ge by simp
  finally show ?thesis
    using le by (intro exI [of _ "nat (j * j)"]) simp
qed

lemma sum_squares_aux:
  assumes "M + 16384 * length td < 2 ^ 53"
  shows "foldl (\<lambda>sum b. double (sum + double (sample b * sample b))) (real M / 2 ^ 14) td =
           real M / 2 ^ 14 + (\<Sum>b\<leftarrow>td. sample b * sample b)"
  using assms
proof (induction td arbitrary: M)
  case Nil
  show ?case by simp
next
  case (Cons b td)
  obtain m where m: "m \<le> 16384" "sample b * sample b = real m / 2 ^ 14"
    using square_exact by blast
  have "double (real_of_int (int m) / 2 ^ 14) = real_of_int (int m) / 2 ^ 14"
    using m(1) by (intro double_dyadic) simp_all
  then have sq: "double (sample b * sample b) = real m / 2 ^ 14"
    by (simp add: m(2))
  have "M + m < 2 ^ 53" using Cons.prems m(1) by simp
  then have "double (real_of_int (int (M + m)) / 2 ^ 14) = real_of_int (int (M + m)) / 2 ^ 14"
    by (intro double_dyadic) simp_all
  then have step: "double (real M / 2 ^ 14 + double (sample b * sample b)) = real (M + m) / 2 ^ 14"
    unfolding sq by (simp add: add_divide_distrib)
  have "foldl (\<lambda>sum b. double (sum + double (sample b * sample b))) (real M / 2 ^ 14) (b # td) =
          foldl (\<lambda>sum b. double (sum + double (sample b * sample b))) (real (M + m) / 2 ^ 14) td"
    by (simp only: foldl_Cons step)
  also have "\<dots> = real (M + m) / 2 ^ 14 + (\<Sum>b\<leftarrow>td. sample b * sample b)"
    using Cons.prems m(1) by (intro Cons.IH) simp
  also have "\<dots> = real M / 2 ^ 14 + (\<Sum>b\<leftarrow>b # td. sample b * sample b)"
    by (simp add: m(2) add_divide_distrib)
  finally show ?case .
qed

lemma sum_squares_exact:
  assumes "length td < 2 ^ 38"
  shows "sum_squares td = (\<Sum>b\<leftarrow>td. ((val b - 128) / 128) * ((val b - 128) / 128))"
proof -
  have "16384 * length td < 16384 * 2 ^ 38" using assms by simp
  then have "0 + 16384 * length td < 2 ^ 53" by simp
  from sum_squares_aux [OF this] show ?thesis
    by (simp add: sum_squares_def sample_eq)
qed

lemma rms_eq:
  assumes "length td < 2 ^ 38"
  shows "rms td = double (sqrt (double ((\<Sum>b\<leftarrow>td. ((val b - 128) / 128) * ((val b - 128) / 128))
                                        / real (length td))))"
  by (simp add: rms_def sum_squares_exact [OF assms])

lemma sum_squares_nonneg: "0 \<le> sum_squares td"
proof -
  have "0 \<le> foldl (\<lambda>sum b. double (sum + double (sample b * sample b))) a td" if "0 \<le> a" for a
    using that
  proof (induction td arbitrary: a)
    case Nil
    then show ?case by simp
  next
    case (Cons b td)
    have "0 \<le> double (sample b * sample b)" by (intro double_nonneg) simp
    then have "0 \<le> double (a + double (sample b * sample b))"
      using Cons.prems by (intro double_nonneg) simp
    then show ?case using Cons.IH by simp
  qed
  then show ?thesis by (simp add: sum_squares_def)
qed

lemma rms_nonneg: "0 \<le> rms td"
proof -
  have "0 \<le> sum_squares td / real (length td)"
    using sum_squares_nonneg [of td] by simp
  then have "0 \<le> double (sum_squares td / real (length td))"
    by (rule double_nonneg)
  then have "0 \<le> sqrt (double (sum_squares td / real (length td)))" by simp
  then show ?thesis unfolding rms_def by (rule double_nonneg)
qed

lemma targetLevel_range: "0 \<le> targetLevel td \<and> targetLevel td \<le> 1"
proof -
  have "0 \<le> rms td * 5" using rms_nonneg [of td] by simp
  then have "0 \<le> double (rms td * 5)" by (rule double_nonneg)
  then show ?thesis by (simp add: targetLevel_def)
qed

lemma targetLevel_double: "double (targetLevel td) = targetLevel td"
  by (simp add: targetLevel_def min_def double_idem)

text \<open>A quarter of the rounded distance lies between zero and the distance.\<close>

lemma quarter_bounds:
  assumes "0 \<le> x"
  shows "0 \<le> double (double x * 0.25)" and "double (double x * 0.25) \<le> x"
proof -
  have d: "0 \<le> double x" "double x \<le> 2 * x"
    using assms by (simp_all add: double_nonneg double_twice)
  then have q: "0 \<le> double x * 0.25" by simp
  then show "0 \<le> double (double x * 0.25)" by (rule double_nonneg)
  have "double (double x * 0.25) \<le> 2 * (double x * 0.25)"
    using q by (rule double_twice)
  with d show "double (double x * 0.25) \<le> x" by simp
qed

lemma quarter_bounds_neg:
  assumes "x \<le> 0"
  shows "x \<le> double (double x * 0.25)" and "double (double x * 0.25) \<le> 0"
proof -
  have "double (double x * 0.25) = - double (double (- x) * 0.25)"
    using double_minus [of "double (- x) * 0.25"] by (simp add: double_minus)
  moreover have "0 \<le> - x" using assms by simp
  ultimately show "x \<le> double (double x * 0.25)" and "double (double x * 0.25) \<le> 0"
    using quarter_bounds [of "- x"] by simp_all
qed

lemma smooth_up:
  assumes "double t = t" and "l \<le> t"
  shows "double l \<le> smooth t l" and "smooth t l \<le> t"
proof -
  have x: "0 \<le> t - l" using assms(2) by simp
  note q = quarter_bounds [OF x]
  have "l \<le> l + double (double (t - l) * 0.25)" using q(1) by simp
  then show "double l \<le> smooth t l" unfolding smooth_def by (rule double_mono)
  have "l + double (double (t - l) * 0.25) \<le> t" using q(2) by simp
  then have "smooth t l \<le> double t" unfolding smooth_def by (rule double_mono)
  then show "smooth t l \<le> t" by (simp only: assms(1))
qed

lemma smooth_down:
  assumes "double t = t" and "t \<le> l"
  shows "t \<le> smooth t l" and "smooth t l \<le> double l"
proof -
  have x: "t - l \<le> 0" using assms(2) by simp
  note q = quarter_bounds_neg [OF x]
  have "l + double (double (t - l) * 0.25) \<le> l" using q(2) by simp
  then show "smooth t l \<le> double l" unfolding smooth_def by (rule double_mono)
  have "t \<le> l + double (double (t - l) * 0.25)" using q(1) by simp
  then have "double t \<le> smooth t l" unfolding smooth_def by (rule double_mono)
  then show "t \<le> smooth t l" by (simp only: assms(1))
qed

lemma smooth_double: "double (smooth t l) = smooth t l"
  by (simp add: smooth_def double_idem)

lemma smooth_range:
  assumes "0 \<le> t" "t \<le> 1" "0 \<le> l" "l \<le> 1"
  shows "0 \<le> smooth t l \<and> smooth t l \<le> 1"
proof -
  let ?s = "l + double (double (t - l) * 0.25)"
  have "0 \<le> ?s \<and> ?s \<le> 1"
  proof (cases "l \<le> t")
    case True
    then have "0 \<le> t - l" by simp
    from quarter_bounds [OF this] assms show ?thesis by simp
  next
    case False
    then have "t - l \<le> 0" by simp
    from quarter_bounds_neg [OF this] assms show ?thesis by simp
  qed
  then have "double 0 \<le> double ?s" and "double ?s \<le> double 1"
    by (simp_all add: double_mono del: double_zero double_one)
  then show ?thesis by (simp add: smooth_def)
qed

lemma analyzeAudio_level:
  assumes "analyserRef h = Some a" and "audioContextRef h = Some ctx"
  shows "smoothedLevelRef (fst (analyzeAudio p inp h)) = smooth (targetLevel (timeData inp)) (smoothedLevelRef h)"
    and "audioLevel (fst (analyzeAudio p inp h)) = smooth (targetLevel (timeData inp)) (smoothedLevelRef h)"
  by (simp_all add: analyzeAudio_eq [OF assms])

lemma analyzeAudio_level_range:
  assumes "0 \<le> smoothedLevelRef h" "smoothedLevelRef h \<le> 1"
  shows "0 \<le> smoothedLevelRef (fst (analyzeAudio p inp h))
         \<and> smoothedLevelRef (fst (analyzeAudio p inp h)) \<le> 1"
proof (cases "analyserRef h = None \<or> audioContextRef h = None")
  case True
  then show ?thesis using assms by (simp add: analyzeAudio_skip)
next
  case False
  then obtain a ctx where "analyserRef h = Some a" "audioContextRef h = Some ctx" by auto
  then show ?thesis
    using assms targetLevel_range [of "timeData inp"]
    by (simp add: analyzeAudio_level smooth_range)
qed

lemma analyzeAudio_level_double:
  assumes "double (smoothedLevelRef h) = smoothedLevelRef h"
  shows "double (smoothedLevelRef (fst (analyzeAudio p inp h))) = smoothedLevelRef (fst (analyzeAudio p inp h))"
proof (cases "analyserRef h = None \<or> audioContextRef h = None")
  case True
  then show ?thesis using assms by (simp add: analyzeAudio_skip)
next
  case False
  then obtain a ctx where "analyserRef h = Some a" "audioContextRef h = Some ctx" by auto
  then show ?thesis
    by (simp add: analyzeAudio_level smooth_double)
qed

lemma frame_loop_Cons:
  "frame_loop p (inp # rest) h =
     (if analyserRef h \<noteq> None \<and> audioContextRef h \<noteq> None \<and> isListening p
      then (fst (frame_loop p rest (fst (analyzeAudio p inp h))),
            snd (analyzeAudio p inp h) @ snd (frame_loop p rest (fst (analyzeAudio p inp h))))
      else analyzeAudio p inp h)"
  by (simp add: frame_loop.simps split: prod.splits)

lemma frame_loop_fold:
  assumes "analyserRef h \<noteq> None" and "audioContextRef h \<noteq> None" and "isListening p"
  shows "fst (frame_loop p inps h) = foldl (\<lambda>h inp. fst (analyzeAudio p inp h)) h inps"
  using assms
proof (induction inps arbitrary: h)
  case Nil
  show ?case by (simp add: frame_loop.simps)
next
  case (Cons inp inps)
  let ?h1 = "fst (analyzeAudio p inp h)"
  have "fst (frame_loop p (inp # inps) h) = fst (frame_loop p inps ?h1)"
    using Cons.prems by (simp add: frame_loop_Cons)
  also have "\<dots> = foldl (\<lambda>h inp. fst (analyzeAudio p inp h)) ?h1 inps"
    using Cons.prems by (intro Cons.IH) (simp_all add: analyzeAudio_refs)
  finally show ?case by simp
qed

lemma frame_loop_refs:
  "analyserRef (fst (frame_loop p inps h)) = analyserRef h
   \<and> audioContextRef (fst (frame_loop p inps h)) = audioContextRef h"
proof (induction inps arbitrary: h)
  case Nil
  show ?case by (simp add: frame_loop.simps)
next
  case (Cons inp inps)
  show ?case
    using Cons.IH [of "fst (analyzeAudio p inp h)"]
    by (simp add: frame_loop_Cons analyzeAudio_refs)
qed

lemma frame_loop_snoc:
  assumes "analyserRef h \<noteq> None" and "audioContextRef h \<noteq> None" and "isListening p"
  shows "fst (frame_loop p (inps @ [inp]) h) = fst (analyzeAudio p inp (fst (frame_loop p inps h)))"
  by (simp add: frame_loop_fold [OF assms])

lemma frame_loop_step:
  assumes "analyserRef h \<noteq> None" and "audioContextRef h \<noteq> None" and "isListening p"
  shows "smoothedLevelRef (fst (frame_loop p (inps @ [inp]) h)) =
           smooth (targetLevel (timeData inp)) (smoothedLevelRef (fst (frame_loop p inps h)))"
proof -
  let ?h = "fst (frame_loop p inps h)"
  obtain a ctx where refs: "analyserRef ?h = Some a" "audioContextRef ?h = Some ctx"
    using assms(1,2) by (auto simp: frame_loop_refs)
  show ?thesis
    by (simp add: frame_loop_snoc [OF assms] analyzeAudio_level [OF refs])
qed

lemma frame_loop_level:
  assumes "analyserRef h \<noteq> None" and "audioContextRef h \<noteq> None" and "isListening p"
    and "\<forall>inp \<in> set inps. targetLevel (timeData inp) = t"
  shows "smoothedLevelRef (fst (frame_loop p inps h)) = (smooth t ^^ length inps) (smoothedLevelRef h)"
  using assms(4)
proof (induction inps rule: rev_induct)
  case Nil
  show ?case by (simp add: frame_loop.simps)
next
  case (snoc inp inps)
  then show ?case
    by (simp add: frame_loop_step [OF assms(1-3)])
qed

lemma frame_loop_level_double:
  assumes "double (smoothedLevelRef h) = smoothedLevelRef h"
  shows "double (smoothedLevelRef (fst (frame_loop p inps h))) = smoothedLevelRef (fst (frame_loop p inps h))"
  using assms
proof (induction inps arbitrary: h)
  case Nil
  then show ?case by (simp add: frame_loop.simps)
next
  case (Cons inp inps)
  note r = analyzeAudio_level_double [OF Cons.prems, of p inp]
  show ?case
  proof (cases "analyserRef h \<noteq> None \<and> audioContextRef h \<noteq> None \<and> isListening p")
    case True
    then have "fst (frame_loop p (inp # inps) h) = fst (frame_loop p inps (fst (analyzeAudio p inp h)))"
      by (simp add: frame_loop_Cons)
    then show ?thesis using Cons.IH [OF r] by simp
  next
    case False
    then have "fst (frame_loop p (inp # inps) h) = fst (analyzeAudio p inp h)"
      by (auto simp: frame_loop_Cons)
    then show ?thesis using r by simp
  qed
qed

lemma frame_loop_level_range:
  assumes "0 \<le> smoothedLevelRef h" "smoothedLevelRef h \<le> 1"
  shows "0 \<le> smoothedLevelRef (fst (frame_loop p inps h))
         \<and> smoothedLevelRef (fst (frame_loop p inps h)) \<le> 1"
  using assms
proof (induction inps arbitrary: h)
  case Nil
  then show ?case by (simp add: frame_loop.simps)
next
  case (Cons inp inps)
  note r = analyzeAudio_level_range [OF Cons.prems, of p inp]
  show ?case
  proof (cases "analyserRef h \<noteq> None \<and> audioContextRef h \<noteq> None \<and> isListening p")
    case True
    then have "fst (frame_loop p (inp # inps) h) = fst (frame_loop p inps (fst (analyzeAudio p inp h)))"
      by (simp add: frame_loop_Cons)
    then show ?thesis using Cons.IH [of "fst (analyzeAudio p inp h)"] r by simp
  next
    case False
    then have "fst (frame_loop p (inp # inps) h) = fst (analyzeAudio p inp h)"
      by (auto simp: frame_loop_Cons)
    then show ?thesis using r by simp
  qed
qed

lemma startListening_level_range:
  assumes "0 \<le> smoothedLevelRef h" "smoothedLevelRef h \<le> 1"
  shows "0 \<le> smoothedLevelRef (fst (snd (startListening p env h)))
         \<and> smoothedLevelRef (fst (snd (startListening p env h))) \<le> 1"
proof -
  have rp: "smoothedLevelRef (snd (requestPermission env h)) = smoothedLevelRef h" for h
    by (simp add: requestPermission_def split: option.splits)
  have ia: "smoothedLevelRef (snd (initializeAudioContext env h)) = smoothedLevelRef h" for h
    by (simp add: initializeAudioContext_def split: option.splits)
  have rs: "smoothedLevelRef (resume h) = smoothedLevelRef h" for h
    by (simp add: resume_def split: option.splits)
  define h1 where "h1 = snd (if \<not> hasPermission h then requestPermission env h else (True, h))"
  define h2 where "h2 = snd (initializeAudioContext env h1)"
  define h4 where "h4 = (resume h2) \<lparr> lastDetectionRef := Map.empty, frequencyHistoryRef := [] \<rparr>"
  have l1: "smoothedLevelRef h1 = smoothedLevelRef h" by (simp add: h1_def rp)
  have l2: "smoothedLevelRef h2 = smoothedLevelRef h" by (simp add: h2_def ia l1)
  have l4: "smoothedLevelRef h4 = smoothedLevelRef h" by (simp add: h4_def rs l2)
  have "fst (snd (startListening p env h)) \<in> {h1, h2, fst (analyzeAudio p (firstCycle env) h4)}"
    by (auto simp: startListening_def h1_def h2_def h4_def Let_def split: prod.splits if_splits)
  moreover have "0 \<le> smoothedLevelRef (fst (analyzeAudio p (firstCycle env) h4))
         \<and> smoothedLevelRef (fst (analyzeAudio p (firstCycle env) h4)) \<le> 1"
    using assms by (intro analyzeAudio_level_range) (simp_all add: l4)
  ultimately show ?thesis
    using assms l1 l2 by auto
qed

lemma stopListening_level: "smoothedLevelRef (stopListening h) = 0" "audioLevel (stopListening h) = 0"
  by (simp_all add: stopListening_def Let_def split: option.splits)


text \<open>
  The level under the target 1, from 0: after three cycles it is \<open>37 / 64\<close>, and from there
  it runs through the doubles \<open>M / 2 ^ 53\<close> between a half and one. After 125 cycles it is
  \<open>1 - 2 ^ -52\<close>, where the quarter of the distance is rounded away.
\<close>

lemma grid_bounds:
  fixes m :: real
  assumes "4503599627370496 \<le> m" and "m \<le> 9007199254740990"
  shows "4503599627370496 \<le> (3 * m + 9007199254740992) / 4"
    and "(3 * m + 9007199254740992) / 4 < 9007199254740992"
    and "(3 * m + 9007199254740992) / 4 \<le> 18014398509481981 / 2"
proof -
  have "4503599627370496 * 4 \<le> 3 * m + 9007199254740992"
    using assms by linarith
  then show "4503599627370496 \<le> (3 * m + 9007199254740992) / 4"
    by (simp only: le_divide_eq_numeral1)
  have "3 * m + 9007199254740992 < 9007199254740992 * 4"
    using assms by linarith
  then show "(3 * m + 9007199254740992) / 4 < 9007199254740992"
    by (simp only: divide_less_eq_numeral1)
  have "3 * m + 9007199254740992 \<le> 18014398509481981 / 2 * 4"
    using assms by linarith
  then show "(3 * m + 9007199254740992) / 4 \<le> 18014398509481981 / 2"
    by (simp only: divide_le_eq_numeral1)
qed

lemma grid_step_eq: "grid_step M = round_even ((3 * real_of_int M + 9007199254740992) / 4)"
  by (simp add: grid_step_def)

lemma smooth_grid:
  assumes "4503599627370496 \<le> M" and "M \<le> 9007199254740990"
  shows "smooth 1 (of_int M / 2 ^ 53) = of_int (grid_step M) / 2 ^ 53"
proof -
  have M: "4503599627370496 \<le> real_of_int M" "real_of_int M \<le> 9007199254740990"
    using assms by linarith+
  have small: "\<bar>2 ^ 53 - M\<bar> < 2 ^ 53"
    using assms by simp
  have a: "1 - real_of_int M / 2 ^ 53 = of_int (2 ^ 53 - M) / 2 ^ 53"
    by (simp add: field_simps)
  have "double (of_int (2 ^ 53 - M) / 2 ^ 53) = of_int (2 ^ 53 - M) / 2 ^ 53"
    using small by (intro double_dyadic) simp_all
  then have d1: "double (1 - real_of_int M / 2 ^ 53) = of_int (2 ^ 53 - M) / 2 ^ 53"
    by (simp only: a)
  have b: "real_of_int (2 ^ 53 - M) / 2 ^ 53 * 0.25 = of_int (2 ^ 53 - M) / 2 ^ 55"
    by simp
  have "double (of_int (2 ^ 53 - M) / 2 ^ 55) = of_int (2 ^ 53 - M) / 2 ^ 55"
    using small by (intro double_dyadic) simp_all
  then have d2: "double (real_of_int (2 ^ 53 - M) / 2 ^ 53 * 0.25) = of_int (2 ^ 53 - M) / 2 ^ 55"
    by (simp only: b)
  define x where "x = real_of_int M / 2 ^ 53 + of_int (2 ^ 53 - M) / 2 ^ 55"
  have x: "x * 2 ^ 53 = (3 * of_int M + 9007199254740992) / 4"
    by (simp add: x_def field_simps)
  have "2 ^ 52 \<le> x * 2 ^ 53" and "x * 2 ^ 53 < 2 ^ 53"
    unfolding x using grid_bounds(1,2) [OF M] by simp_all
  then have "double x = of_int (round_even (x * 2 ^ 53)) / 2 ^ 53"
    by (intro double_scaled) simp_all
  then show ?thesis
    unfolding smooth_def d1 d2 x_def [symmetric] x grid_step_eq .
qed

lemma grid_range:
  assumes "4503599627370496 \<le> M" and "M \<le> 9007199254740990"
  shows "4503599627370496 \<le> grid_step M" and "grid_step M \<le> 9007199254740990"
proof -
  have M: "4503599627370496 \<le> real_of_int M" "real_of_int M \<le> 9007199254740990"
    using assms by linarith+
  have "real_of_int 4503599627370496 \<le> (3 * of_int M + 9007199254740992) / 4"
    using grid_bounds(1) [OF M] by simp
  from round_even_mono [OF this] show "4503599627370496 \<le> grid_step M"
    by (simp only: round_even_int grid_step_eq)
  from round_even_mono [OF grid_bounds(3) [OF M]]
  have "grid_step M \<le> round_even (18014398509481981 / 2)"
    by (simp only: grid_step_eq)
  also have "round_even (18014398509481981 / 2) = 9007199254740990"
    by (simp add: round_even_def)
  finally show "grid_step M \<le> 9007199254740990" .
qed

lemma smooth_grid_iterate:
  assumes "4503599627370496 \<le> M" and "M \<le> 9007199254740990"
  shows "(smooth 1 ^^ k) (of_int M / 2 ^ 53) = of_int ((grid_step ^^ k) M) / 2 ^ 53
         \<and> 4503599627370496 \<le> (grid_step ^^ k) M \<and> (grid_step ^^ k) M \<le> 9007199254740990"
proof (induction k)
  case 0
  show ?case using assms by simp
next
  case (Suc k)
  define N where "N = (grid_step ^^ k) M"
  from Suc have eq: "(smooth 1 ^^ k) (of_int M / 2 ^ 53) = of_int N / 2 ^ 53"
    and N: "4503599627370496 \<le> N" "N \<le> 9007199254740990"
    unfolding N_def by blast+
  have "(smooth 1 ^^ Suc k) (of_int M / 2 ^ 53) = smooth 1 (of_int N / 2 ^ 53)"
    by (simp only: funpow.simps o_apply eq)
  also have "\<dots> = of_int (grid_step N) / 2 ^ 53"
    using N by (rule smooth_grid)
  also have "grid_step N = (grid_step ^^ Suc k) M"
    by (simp only: funpow.simps o_apply N_def)
  finally have "(smooth 1 ^^ Suc k) (of_int M / 2 ^ 53) = of_int ((grid_step ^^ Suc k) M) / 2 ^ 53" .
  moreover have "4503599627370496 \<le> (grid_step ^^ Suc k) M" "(grid_step ^^ Suc k) M \<le> 9007199254740990"
    using grid_range [OF N] by (simp_all only: funpow.simps o_apply N_def)
  ultimately show ?case by blast
qed

lemma first_cycles: "(smooth 1 ^^ 3) 0 = 37 / 64"
proof -
  have d: "double (1 / 4) = 1 / 4" "double (3 / 4) = 3 / 4" "double (3 / 16) = 3 / 16"
    "double (7 / 16) = 7 / 16" "double (9 / 16) = 9 / 16" "double (9 / 64) = 9 / 64"
    "double (37 / 64) = 37 / 64"
    using double_dyadic [of 1 2] double_dyadic [of 3 2] double_dyadic [of 3 4] double_dyadic [of 7 4]
      double_dyadic [of 9 4] double_dyadic [of 9 6] double_dyadic [of 37 6]
    by simp_all
  have 1: "smooth 1 0 = 1 / 4" by (simp add: smooth_def d)
  have 2: "smooth 1 (1 / 4) = 7 / 16" by (simp add: smooth_def d)
  have 3: "smooth 1 (7 / 16) = 37 / 64" by (simp add: smooth_def d)
  have "(smooth 1 ^^ 3) 0 = smooth 1 (smooth 1 (smooth 1 0))"
    by (simp add: eval_nat_numeral)
  then show ?thesis by (simp only: 1 2 3)
qed

lemma grid_run: "(grid_step ^^ 122) 5207287069147136 = 9007199254740990"
  by (simp add: eval_nat_numeral grid_step_def round_even_def)

lemma grid_fixed: "(grid_step ^^ n) 9007199254740990 = 9007199254740990"
proof (induction n)
  case 0
  show ?case by simp
next
  case (Suc n)
  have "grid_step 9007199254740990 = 9007199254740990"
    by (simp add: grid_step_def round_even_def)
  with Suc show ?case by simp
qed

lemma level_under_one: "(smooth 1 ^^ (125 + n)) 0 = 1 - 1 / 2 ^ 52"
proof -
  have "(smooth 1 ^^ (n + 122 + 3)) 0 = (smooth 1 ^^ (n + 122)) ((smooth 1 ^^ 3) 0)"
    by (simp only: funpow_add o_apply)
  also have "(smooth 1 ^^ 3) 0 = of_int 5207287069147136 / 2 ^ 53"
    by (simp add: first_cycles)
  also have "(smooth 1 ^^ (n + 122)) (of_int 5207287069147136 / 2 ^ 53) =
               of_int ((grid_step ^^ (n + 122)) 5207287069147136) / 2 ^ 53"
    using smooth_grid_iterate [of 5207287069147136 "n + 122"] by simp
  also have "(grid_step ^^ (n + 122)) 5207287069147136 = (grid_step ^^ n) ((grid_step ^^ 122) 5207287069147136)"
    by (simp only: funpow_add o_apply)
  also have "\<dots> = 9007199254740990"
    by (simp only: grid_run grid_fixed)
  finally have "(smooth 1 ^^ (n + 122 + 3)) 0 = 1 - 1 / 2 ^ 52"
    by simp
  moreover have "n + 122 + 3 = 125 + n" by simp
  ultimately show ?thesis by simp
qed

lemma val_141: "val 141 = 141"
  by (simp add: val_def)

lemma loud_target: "rms loud = 1" "targetLevel loud = 1"
proof -
  have "length loud < 2 ^ 38" by (simp add: loud_def)
  from rms_eq [OF this] show r: "rms loud = 1"
    by (simp add: loud_def val_0 sum_list_replicate)
  show "targetLevel loud = 1"
    by (simp add: targetLevel_def r double_numeral)
qed

lemma hum_target: "rms hum = 13 / 128" "targetLevel hum = 65 / 128"
proof -
  have s: "sqrt (169 / 16384) = 13 / 128"
    by (rule real_sqrt_unique) (simp_all add: power2_eq_square)
  have d: "double (169 / 16384) = 169 / 16384" "double (13 / 128) = 13 / 128"
    "double (65 / 128) = 65 / 128"
    using double_dyadic [of 169 14] double_dyadic [of 13 7] double_dyadic [of 65 7] by simp_all
  have "length hum < 2 ^ 38" by (simp add: hum_def)
  from rms_eq [OF this] show r: "rms hum = 13 / 128"
    by (simp add: hum_def val_141 sum_list_replicate d s)
  show "targetLevel hum = 65 / 128"
    by (simp add: targetLevel_def r d)
qed

lemma frames_steady: "steady 1 (loud_frames n)" "steady (65 / 128) (hum_frames n)"
proof -
  have "loud \<noteq> []" "hum \<noteq> []" by (simp_all add: loud_def hum_def)
  then show "steady 1 (loud_frames n)" "steady (65 / 128) (hum_frames n)"
    by (auto simp: steady_def loud_frames_def hum_frames_def loud_target hum_target)
qed

lemma listening_refs:
  "analyserRef listening_hook = Some \<lparr> fftSize = 16384 \<rparr>"
  "audioContextRef listening_hook = Some \<lparr> sampleRate = 48000, state = Running \<rparr>"
  "lastDetectionRef listening_hook = Map.empty" "smoothedLevelRef listening_hook = 0"
  "isListening listening_props" "enabledSounds listening_props = all_enabled"
  by (simp_all add: listening_hook_def initial_hook_def listening_props_def)





section \<open>Restarting a session\<close>

lemma restart_first_cycle:
  assumes web: "platformWeb env" and media: "getUserMedia env = None"
    and audio: "newAudio env = Some ctx"
  shows "\<exists>h0. startListening p env (stopListening h) = (True, analyzeAudio p (firstCycle env) h0)
           \<and> lastDetectionRef h0 = Map.empty \<and> frequencyHistoryRef h0 = []
           \<and> smoothedLevelRef h0 = 0 \<and> audioLevel h0 = 0
           \<and> analyserRef h0 = Some \<lparr> fftSize = 16384 \<rparr>
           \<and> (\<exists>c. audioContextRef h0 = Some c \<and> sampleRate c = sampleRate ctx)"
proof -
  define h1 where "h1 = snd (requestPermission env (stopListening h))"
  define h2 where "h2 = h1 \<lparr> audioContextRef := Some ctx, analyserRef := Some \<lparr> fftSize = 16384 \<rparr> \<rparr>"
  define h0 where "h0 = (resume h2) \<lparr> lastDetectionRef := Map.empty, frequencyHistoryRef := [] \<rparr>"
  have np: "\<not> hasPermission (stopListening h)"
    by (simp add: stopListening_def Let_def split: option.splits)
  have rp: "requestPermission env (stopListening h) = (True, h1)" and ms: "mediaStreamRef h1"
    and l1: "smoothedLevelRef h1 = 0" "audioLevel h1 = 0"
    using web media by (simp_all add: h1_def requestPermission_def stopListening_level)
  have ia: "initializeAudioContext env h1 = (True, h2)"
    using ms audio by (simp add: initializeAudioContext_def h2_def)
  have start: "startListening p env (stopListening h) = (True, analyzeAudio p (firstCycle env) h0)"
    using np rp ia by (simp add: startListening_def h0_def Let_def split: prod.splits)
  have "smoothedLevelRef h0 = 0" "audioLevel h0 = 0" "analyserRef h0 = Some \<lparr> fftSize = 16384 \<rparr>"
    "\<exists>c. audioContextRef h0 = Some c \<and> sampleRate c = sampleRate ctx"
    using l1 by (auto simp: h0_def h2_def resume_def)
  with start show ?thesis
    by (intro exI [of _ h0]) (simp add: h0_def)
qed

lemma restart_events:
  assumes web: "platformWeb env" and media: "getUserMedia env = None"
    and audio: "newAudio env = Some ctx"
  shows "snd (snd (startListening p env (stopListening h))) =
           filter (passes Map.empty (now (firstCycle env)))
             (detections (enabledSounds p) (frequencyData (firstCycle env)) (sampleRate ctx))"
proof -
  from restart_first_cycle [OF assms, of p h] obtain h0 c where
    s: "startListening p env (stopListening h) = (True, analyzeAudio p (firstCycle env) h0)"
    and g: "lastDetectionRef h0 = Map.empty" and a: "analyserRef h0 = Some \<lparr> fftSize = 16384 \<rparr>"
    and c: "audioContextRef h0 = Some c" "sampleRate c = sampleRate ctx"
    by blast
  show ?thesis
    unfolding s by (simp add: analyzeAudio_eq [OF a c(1)] g c(2))
qed

text \<open>
  C8: a start that succeeds after a stop runs its first cycle on a state whose gate
  state and history are empty and whose smoothed level is 0. So the gate of that cycle
  knows nothing of earlier emissions: a detection that a cycle emitted before the stop
  is emitted again by the first cycle of the new session on the same spectrum, however
  soon it comes, while the cycle of the old session at that time would have dropped
  it. (The clock reads milliseconds since 1970, far above the cooldown.)
\<close>

theorem session_restart:
  assumes "platformWeb env" and "getUserMedia env = None" and "newAudio env = Some ctx"
  shows "(\<exists>h0. startListening p env (stopListening h) = (True, analyzeAudio p (firstCycle env) h0)
            \<and> lastDetectionRef h0 = Map.empty \<and> smoothedLevelRef h0 = 0)
    \<and> (\<forall>d a ctx0 inp.
          analyserRef h = Some a \<and> audioContextRef h = Some ctx0 \<and> sampleRate ctx0 = sampleRate ctx
          \<and> d \<in> set (snd (analyzeAudio p inp h))
          \<and> frequencyData (firstCycle env) = frequencyData inp
          \<and> cooldownPeriod (type d) < now inp
          \<and> now inp \<le> now (firstCycle env)
          \<and> now (firstCycle env) \<le> now inp + cooldownPeriod (type d) \<longrightarrow>
          d \<in> set (snd (snd (startListening p env (stopListening (fst (analyzeAudio p inp h))))))
          \<and> d \<notin> set (snd (analyzeAudio p (firstCycle env) (fst (analyzeAudio p inp h)))))"
proof (intro conjI allI impI)
  show "\<exists>h0. startListening p env (stopListening h) = (True, analyzeAudio p (firstCycle env) h0)
            \<and> lastDetectionRef h0 = Map.empty \<and> smoothedLevelRef h0 = 0"
    using restart_first_cycle [OF assms, of p h] by blast
next
  fix d a ctx0 inp
  assume A: "analyserRef h = Some a \<and> audioContextRef h = Some ctx0 \<and> sampleRate ctx0 = sampleRate ctx
          \<and> d \<in> set (snd (analyzeAudio p inp h))
          \<and> frequencyData (firstCycle env) = frequencyData inp
          \<and> cooldownPeriod (type d) < now inp
          \<and> now inp \<le> now (firstCycle env)
          \<and> now (firstCycle env) \<le> now inp + cooldownPeriod (type d)"
  then have refs: "analyserRef h = Some a" "audioContextRef h = Some ctx0" by simp_all
  let ?h1 = "fst (analyzeAudio p inp h)"
  let ?ds = "detections (enabledSounds p) (frequencyData inp) (sampleRate ctx)"
  from A have sr: "sampleRate ctx0 = sampleRate ctx" by simp
  from A have mem: "d \<in> set ?ds" and ps: "passes (lastDetectionRef h) (now inp) d"
    unfolding sr [symmetric] by (simp_all add: analyzeAudio_eq [OF refs])
  from ps have conf: "confidence d > confidenceThreshold (type d)"
    by (simp add: passes_def)
  have "passes Map.empty (now (firstCycle env)) d"
    using conf A by (simp add: passes_def lastDetection_def)
  then show "d \<in> set (snd (snd (startListening p env (stopListening ?h1))))"
    using mem A by (simp add: restart_events [OF assms])
  have refs1: "analyserRef ?h1 = Some a" "audioContextRef ?h1 = Some ctx0"
    using refs by (simp_all add: analyzeAudio_refs)
  have "lastDetectionRef ?h1 (type d) = Some (now inp)"
    using A by (auto simp: gate_after [OF refs])
  then have "\<not> passes (lastDetectionRef ?h1) (now (firstCycle env)) d"
    using A by (simp add: passes_def lastDetection_def)
  then show "d \<notin> set (snd (analyzeAudio p (firstCycle env) ?h1))"
    by (simp add: analyzeAudio_eq [OF refs1])
qed


theorem session_restart_witness:
  "platformWeb restart_env \<and> getUserMedia restart_env = None
   \<and> newAudio restart_env = Some \<lparr> sampleRate = 48000, state = Suspended \<rparr>
   \<and> \<lparr> type = Fire, confidence = double 0.98, frequency = 3100, amplitude = 255 \<rparr>
       \<in> set (snd (analyzeAudio listening_props (saturated_input 1700000000000) listening_hook))
   \<and> \<lparr> type = Fire, confidence = double 0.98, frequency = 3100, amplitude = 255 \<rparr>
       \<in> set (snd (snd (startListening listening_props restart_env
             (stopListening (fst (analyzeAudio listening_props (saturated_input 1700000000000) listening_hook))))))
   \<and> \<lparr> type = Fire, confidence = double 0.98, frequency = 3100, amplitude = 255 \<rparr>
       \<notin> set (snd (analyzeAudio listening_props (firstCycle restart_env)
             (fst (analyzeAudio listening_props (saturated_input 1700000000000) listening_hook))))"
proof -
  let ?d = "\<lparr> type = Fire, confidence = double 0.98, frequency = 3100, amplitude = 255 \<rparr>"
  let ?a = "\<lparr> fftSize = 16384 \<rparr>"
  let ?run = "\<lparr> sampleRate = 48000, state = Running \<rparr>"
  let ?ctx = "\<lparr> sampleRate = 48000, state = Suspended \<rparr>"
  let ?inp = "saturated_input 1700000000000"
  have env: "platformWeb restart_env" "getUserMedia restart_env = None"
    "newAudio restart_env = Some ?ctx"
    by (simp_all add: restart_env_def)
  have mem: "?d \<in> set (snd (analyzeAudio listening_props ?inp listening_hook))"
    by (simp add: saturated_cycle)
  have r: "analyserRef listening_hook = Some ?a" "audioContextRef listening_hook = Some ?run"
    "sampleRate ?run = sampleRate ?ctx"
    "frequencyData (firstCycle restart_env) = frequencyData ?inp"
    "cooldownPeriod (type ?d) < now ?inp"
    "now ?inp \<le> now (firstCycle restart_env)"
    "now (firstCycle restart_env) \<le> now ?inp + cooldownPeriod (type ?d)"
    by (simp_all add: listening_hook_def initial_hook_def restart_env_def saturated_input_def
          cooldownPeriod_def)
  have prem: "analyserRef listening_hook = Some ?a \<and> audioContextRef listening_hook = Some ?run
          \<and> sampleRate ?run = sampleRate ?ctx
          \<and> ?d \<in> set (snd (analyzeAudio listening_props ?inp listening_hook))
          \<and> frequencyData (firstCycle restart_env) = frequencyData ?inp
          \<and> cooldownPeriod (type ?d) < now ?inp
          \<and> now ?inp \<le> now (firstCycle restart_env)
          \<and> now (firstCycle restart_env) \<le> now ?inp + cooldownPeriod (type ?d)"
    by (intro conjI r mem)
  from session_restart [OF env, of listening_props listening_hook] prem
  have "?d \<in> set (snd (snd (startListening listening_props restart_env
             (stopListening (fst (analyzeAudio listening_props ?inp listening_hook))))))
      \<and> ?d \<notin> set (snd (analyzeAudio listening_props (firstCycle restart_env)
             (fst (analyzeAudio listening_props ?inp listening_hook))))"
    by blast
  with env mem show ?thesis by simp
qed

section \<open>The enabled mask\<close>

lemma disabled_none:
  "\<not> fire en \<Longrightarrow> detectFireAlarm en fd sr = None"
  "\<not> doorbell en \<Longrightarrow> detectDoorbell en fd sr = None"
  "\<not> baby en \<Longrightarrow> detectBabyCrying en fd sr = None"
  by (simp_all add: detectFireAlarm_def detectDoorbell_def detectBabyCrying_def)

lemma detections_enabled:
  assumes "d \<in> set (detections en fd sr)"
  shows "enabled_kind en (type d)"
proof -
  from assms consider "detectFireAlarm en fd sr = Some d" | "detectDoorbell en fd sr = Some d"
    | "detectBabyCrying en fd sr = Some d"
    by (auto simp: detections_member)
  then show ?thesis
  proof cases
    case 1
    then have "fire en" "type d = Fire"
      using disabled_none(1) [of en fd sr] by (auto dest: detect_types)
    then show ?thesis by (simp add: enabled_kind_def)
  next
    case 2
    then have "doorbell en" "type d = Doorbell"
      using disabled_none(2) [of en fd sr] by (auto dest: detect_types)
    then show ?thesis by (simp add: enabled_kind_def)
  next
    case 3
    then have "baby en" "type d = Baby"
      using disabled_none(3) [of en fd sr] by (auto dest: detect_types)
    then show ?thesis by (simp add: enabled_kind_def)
  qed
qed

lemma enabled_kind_simps:
  "enabled_kind en Fire = fire en" "enabled_kind en Doorbell = doorbell en"
  "enabled_kind en Baby = baby en"
  by (simp_all add: enabled_kind_def)

lemma analyzeAudio_enabled:
  "d \<in> set (snd (analyzeAudio p inp h)) \<Longrightarrow> enabled_kind (enabledSounds p) (type d)"
  by (auto dest: analyzeAudio_subset detections_enabled)

lemma frame_loop_enabled:
  "d \<in> set (snd (frame_loop p inps h)) \<Longrightarrow> enabled_kind (enabledSounds p) (type d)"
proof (induction inps arbitrary: h)
  case Nil
  then show ?case by (simp add: frame_loop.simps)
next
  case (Cons inp inps)
  from Cons.prems have "d \<in> set (snd (analyzeAudio p inp h))
      \<or> d \<in> set (snd (frame_loop p inps (fst (analyzeAudio p inp h))))"
    by (auto simp: frame_loop_Cons split: if_splits)
  then show ?case
  proof
    assume "d \<in> set (snd (analyzeAudio p inp h))"
    then show ?thesis by (rule analyzeAudio_enabled)
  next
    assume "d \<in> set (snd (frame_loop p inps (fst (analyzeAudio p inp h))))"
    then show ?thesis by (rule Cons.IH)
  qed
qed

lemma disabled_cycle:
  assumes "\<not> enabled_kind (enabledSounds p) k"
  shows "filter (\<lambda>d. type d = k) (snd (frame_loop p inps h)) = []"
    and "filter (\<lambda>d. type d = k) (snd (analyzeAudio p inp h)) = []"
proof -
  have "type d \<noteq> k" if "d \<in> set (snd (frame_loop p inps h))" for d
    using frame_loop_enabled [OF that] assms by auto
  then show "filter (\<lambda>d. type d = k) (snd (frame_loop p inps h)) = []"
    by (simp add: filter_empty_conv)
  have "type d \<noteq> k" if "d \<in> set (snd (analyzeAudio p inp h))" for d
    using analyzeAudio_enabled [OF that] assms by auto
  then show "filter (\<lambda>d. type d = k) (snd (analyzeAudio p inp h)) = []"
    by (simp add: filter_empty_conv)
qed

text \<open>
  C7, as stated, fails in its second half. In the loop of the specification, which
  reads the mask afresh each cycle, a consumer that starts with Fire disabled and
  enables it before the second cycle gets a Fire detection from the second cycle. The
  hook's loop calls the classifiers it was created with, which hold the mask of that
  time: started with Fire disabled, it yields no Fire detection in the second cycle.
\<close>

theorem mask_fresh_counterexample:
  "filter (\<lambda>d. type d = Fire)
     (snd (spec_frame_loop [(fire_off, saturated_input 1700000000000),
                            (all_enabled, saturated_input 1700000000016)] listening_hook)) =
     [\<lparr> type = Fire, confidence = double 0.98, frequency = 3100, amplitude = 255 \<rparr>]
   \<and> filter (\<lambda>d. type d = Fire)
     (snd (frame_loop \<lparr> isListening = True, enabledSounds = fire_off \<rparr>
             [saturated_input 1700000000000, saturated_input 1700000000016] listening_hook)) = []"
proof -
  let ?off = "\<lparr> isListening = True, enabledSounds = fire_off \<rparr>"
  let ?on = "\<lparr> isListening = True, enabledSounds = all_enabled \<rparr>"
  let ?h1 = "fst (analyzeAudio ?off (saturated_input 1700000000000) listening_hook)"
  have inp: "frequencyData (saturated_input t) = saturated" "now (saturated_input t) = t" for t
    by (simp_all add: saturated_input_def)
  have refs1: "analyserRef ?h1 = Some \<lparr> fftSize = 16384 \<rparr>"
    "audioContextRef ?h1 = Some \<lparr> sampleRate = 48000, state = Running \<rparr>"
    by (simp_all add: analyzeAudio_refs listening_refs)
  have off: "\<not> enabled_kind (enabledSounds ?off) Fire"
    by (simp add: enabled_kind_simps fire_off_def)
  note e1 = disabled_cycle(2) [OF off]
  have g1: "lastDetectionRef ?h1 Fire = None"
    using e1 [of "saturated_input 1700000000000" listening_hook]
    by (auto simp: gate_after [OF listening_refs(1,2)] listening_refs filter_empty_conv)
  have e2: "filter (\<lambda>d. type d = Fire) (snd (analyzeAudio ?on (saturated_input 1700000000016) ?h1)) =
              [\<lparr> type = Fire, confidence = double 0.98, frequency = 3100, amplitude = 255 \<rparr>]"
    using ceilings_gt(1)
    by (simp add: kind_events [OF refs1] inp saturated_candidates passes_def g1 lastDetection_def
          confidenceThreshold_def cooldownPeriod_def)
  have spec: "snd (spec_frame_loop [(fire_off, saturated_input 1700000000000),
                            (all_enabled, saturated_input 1700000000016)] listening_hook) =
      snd (analyzeAudio ?off (saturated_input 1700000000000) listening_hook)
      @ snd (analyzeAudio ?on (saturated_input 1700000000016) ?h1)"
    by (simp add: split_beta Let_def)
  note code = disabled_cycle(1) [OF off, of "[saturated_input 1700000000000, saturated_input 1700000000016]"
      listening_hook]
  show ?thesis
    unfolding spec filter_append e1 e2 code by simp
qed


text \<open>
  C7, amended: if the mask entry of a kind is false, its classifier returns no
  candidate whatever the spectrum. The classifiers hold the mask they were created
  with and a running frame loop keeps calling them, so a loop started with a kind
  disabled hands on no detection of that kind in any of its cycles. A changed mask
  comes into force with the session that \<open>startListening\<close> starts with it: the first
  cycle of that session runs the classifiers of the new mask against an empty gate
  state.
\<close>

theorem mask_capture:
  "(\<not> fire en \<longrightarrow> detectFireAlarm en fd sr = None)
   \<and> (\<not> doorbell en \<longrightarrow> detectDoorbell en fd sr = None)
   \<and> (\<not> baby en \<longrightarrow> detectBabyCrying en fd sr = None)
   \<and> (\<not> enabled_kind (enabledSounds p) k \<longrightarrow>
        filter (\<lambda>d. type d = k) (snd (frame_loop p inps h)) = [])
   \<and> (platformWeb env \<and> getUserMedia env = None \<and> newAudio env = Some ctx \<longrightarrow>
        snd (snd (startListening q env (stopListening h))) =
          filter (\<lambda>d. confidence d > confidenceThreshold (type d)
                     \<and> now (firstCycle env) > cooldownPeriod (type d))
            (detections (enabledSounds q) (frequencyData (firstCycle env)) (sampleRate ctx)))"
proof (intro conjI impI)
  assume "platformWeb env \<and> getUserMedia env = None \<and> newAudio env = Some ctx"
  then have "snd (snd (startListening q env (stopListening h))) =
      filter (passes Map.empty (now (firstCycle env)))
        (detections (enabledSounds q) (frequencyData (firstCycle env)) (sampleRate ctx))"
    by (intro restart_events) simp_all
  then show "snd (snd (startListening q env (stopListening h))) =
          filter (\<lambda>d. confidence d > confidenceThreshold (type d)
                     \<and> now (firstCycle env) > cooldownPeriod (type d))
            (detections (enabledSounds q) (frequencyData (firstCycle env)) (sampleRate ctx))"
    by (simp add: passes_def [abs_def] lastDetection_def)
qed (simp_all add: disabled_none disabled_cycle)

theorem mask_capture_witness:
  "\<not> fire fire_off \<and> detectFireAlarm fire_off saturated 48000 = None
   \<and> detectFireAlarm all_enabled saturated 48000 =
       Some \<lparr> type = Fire, confidence = double 0.98, frequency = 3100, amplitude = 255 \<rparr>
   \<and> filter (\<lambda>d. type d = Fire)
       (snd (frame_loop \<lparr> isListening = True, enabledSounds = fire_off \<rparr>
               [saturated_input 1700000000000, saturated_input 1700000000016] listening_hook)) = []
   \<and> platformWeb restart_env \<and> getUserMedia restart_env = None
   \<and> snd (snd (startListening listening_props restart_env
         (stopListening (fst (frame_loop \<lparr> isListening = True, enabledSounds = fire_off \<rparr>
               [saturated_input 1700000000000] listening_hook))))) =
       [\<lparr> type = Fire, confidence = double 0.98, frequency = 3100, amplitude = 255 \<rparr>,
        \<lparr> type = Doorbell, confidence = double 0.95, frequency = 44625 / 128, amplitude = 255 \<rparr>,
        \<lparr> type = Baby, confidence = double 0.92, frequency = 31875 / 128, amplitude = 255 \<rparr>]"
proof -
  let ?off = "\<lparr> isListening = True, enabledSounds = fire_off \<rparr>"
  let ?h = "fst (frame_loop ?off [saturated_input 1700000000000] listening_hook)"
  let ?ctx = "\<lparr> sampleRate = 48000, state = Suspended \<rparr>"
  have off: "\<not> fire fire_off" "\<not> enabled_kind (enabledSounds ?off) Fire"
    by (simp_all add: fire_off_def enabled_kind_simps)
  have env: "platformWeb restart_env \<and> getUserMedia restart_env = None
      \<and> newAudio restart_env = Some ?ctx"
    by (simp add: restart_env_def)
  have "detectFireAlarm fire_off saturated 48000 = None"
    using mask_capture [of fire_off saturated 48000] off by blast
  moreover have "filter (\<lambda>d. type d = Fire)
       (snd (frame_loop ?off [saturated_input 1700000000000, saturated_input 1700000000016] listening_hook)) = []"
    using mask_capture [where p = ?off and k = Fire] off by blast
  moreover have "snd (snd (startListening listening_props restart_env (stopListening ?h))) =
       filter (\<lambda>d. confidence d > confidenceThreshold (type d)
                  \<and> now (firstCycle restart_env) > cooldownPeriod (type d))
         (detections (enabledSounds listening_props) (frequencyData (firstCycle restart_env)) (sampleRate ?ctx))"
    using mask_capture [where env = restart_env and ctx = ?ctx and q = listening_props
        and h = ?h] env by blast
  ultimately show ?thesis
    using off env ceilings_gt
    by (simp add: saturated_candidates detections_cases listening_props_def restart_env_def
          saturated_input_def confidenceThreshold_def cooldownPeriod_def)
qed


end
